theory Spec2Isabelle
  imports Complex_Main
begin

section \<open>JavaScript numbers\<close>

text \<open>
  Every quantity of the program is a JavaScript \<^verbatim>\<open>number\<close>, an IEEE 754 binary64 value.
  The model keeps the three special values apart from the finite ones: \<open>NaN\<close>, \<open>PInf\<close>
  (Infinity), \<open>NInf\<close> (-Infinity) and \<open>Fin r\<close> for a finite value \<open>r\<close>. The sign of zero is not
  represented (a quotient by zero is taken by a positive zero).
\<close>

datatype jsnum = NaN | PInf | NInf | Fin real

fun isNaN :: "jsnum \<Rightarrow> bool" where
  "isNaN NaN = True"
| "isNaN PInf = False"
| "isNaN NInf = False"
| "isNaN (Fin r) = False"

subsection \<open>Rounding to binary64\<close>

text \<open>
  A finite result is the exact real result rounded to the nearest binary64 value, ties to
  the even significand. The spacing of the binary64 values around \<open>x\<close> is \<open>ulp x\<close>: two to
  the power \<open>e - 52\<close> when \<open>x\<close> lies between two to the \<open>e\<close> and two to the \<open>e + 1\<close>, and two to
  the \<open>-1074\<close> throughout the subnormal range below two to the \<open>-1022\<close>. A result whose
  magnitude reaches \<open>2 ^ 1024 - 2 ^ 970\<close>, half a spacing above the largest finite value,
  overflows to an infinity.
\<close>

definition ulp_exp :: "real \<Rightarrow> int" where
  "ulp_exp x = max \<lfloor>log 2 \<bar>x\<bar>\<rfloor> (- 1022) - 52"

definition ulp :: "real \<Rightarrow> real" where
  "ulp x = 2 powr of_int (ulp_exp x)"

definition round_even :: "real \<Rightarrow> int" where
  "round_even y =
     (let n = \<lfloor>y\<rfloor>
      in if y - of_int n < 1 / 2 then n
         else if 1 / 2 < y - of_int n then n + 1
         else if even n then n else n + 1)"

definition rd :: "real \<Rightarrow> real" where
  "rd x = of_int (round_even (x / ulp x)) * ulp x"

definition fl64 :: "real \<Rightarrow> jsnum" where
  "fl64 x =
     (if 2 ^ 1024 - 2 ^ 970 \<le> \<bar>x\<bar> then (if 0 < x then PInf else NInf) else Fin (rd x))"

subsection \<open>Arithmetic\<close>

text \<open>
  The special values follow the rules of the language: an operation on \<open>NaN\<close> gives \<open>NaN\<close>,
  so do \<open>Infinity - Infinity\<close>, \<open>0 * Infinity\<close>, \<open>0 / 0\<close>, \<open>Infinity / Infinity\<close>, the square root
  of a negative number and the cosine or sine of an infinity. On finite operands each
  operation returns the rounded exact result.
\<close>

fun js_add :: "jsnum \<Rightarrow> jsnum \<Rightarrow> jsnum" where
  "js_add NaN y = NaN"
| "js_add PInf NaN = NaN"
| "js_add PInf PInf = PInf"
| "js_add PInf NInf = NaN"
| "js_add PInf (Fin y) = PInf"
| "js_add NInf NaN = NaN"
| "js_add NInf PInf = NaN"
| "js_add NInf NInf = NInf"
| "js_add NInf (Fin y) = NInf"
| "js_add (Fin x) NaN = NaN"
| "js_add (Fin x) PInf = PInf"
| "js_add (Fin x) NInf = NInf"
| "js_add (Fin x) (Fin y) = fl64 (x + y)"

fun js_sub :: "jsnum \<Rightarrow> jsnum \<Rightarrow> jsnum" where
  "js_sub NaN y = NaN"
| "js_sub PInf NaN = NaN"
| "js_sub PInf PInf = NaN"
| "js_sub PInf NInf = PInf"
| "js_sub PInf (Fin y) = PInf"
| "js_sub NInf NaN = NaN"
| "js_sub NInf PInf = NInf"
| "js_sub NInf NInf = NaN"
| "js_sub NInf (Fin y) = NInf"
| "js_sub (Fin x) NaN = NaN"
| "js_sub (Fin x) PInf = NInf"
| "js_sub (Fin x) NInf = PInf"
| "js_sub (Fin x) (Fin y) = fl64 (x - y)"

fun js_mul :: "jsnum \<Rightarrow> jsnum \<Rightarrow> jsnum" where
  "js_mul NaN y = NaN"
| "js_mul PInf NaN = NaN"
| "js_mul PInf PInf = PInf"
| "js_mul PInf NInf = NInf"
| "js_mul PInf (Fin y) = (if y = 0 then NaN else if 0 < y then PInf else NInf)"
| "js_mul NInf NaN = NaN"
| "js_mul NInf PInf = NInf"
| "js_mul NInf NInf = PInf"
| "js_mul NInf (Fin y) = (if y = 0 then NaN else if 0 < y then NInf else PInf)"
| "js_mul (Fin x) NaN = NaN"
| "js_mul (Fin x) PInf = (if x = 0 then NaN else if 0 < x then PInf else NInf)"
| "js_mul (Fin x) NInf = (if x = 0 then NaN else if 0 < x then NInf else PInf)"
| "js_mul (Fin x) (Fin y) = fl64 (x * y)"

fun js_div :: "jsnum \<Rightarrow> jsnum \<Rightarrow> jsnum" where
  "js_div NaN y = NaN"
| "js_div PInf NaN = NaN"
| "js_div PInf PInf = NaN"
| "js_div PInf NInf = NaN"
| "js_div PInf (Fin y) = (if y < 0 then NInf else PInf)"
| "js_div NInf NaN = NaN"
| "js_div NInf PInf = NaN"
| "js_div NInf NInf = NaN"
| "js_div NInf (Fin y) = (if y < 0 then PInf else NInf)"
| "js_div (Fin x) NaN = NaN"
| "js_div (Fin x) PInf = Fin 0"
| "js_div (Fin x) NInf = Fin 0"
| "js_div (Fin x) (Fin y) =
     (if y = 0 then (if x = 0 then NaN else if 0 < x then PInf else NInf)
      else fl64 (x / y))"

text \<open>\<^verbatim>\<open>x ** 2\<close>\<close>

fun js_pow2 :: "jsnum \<Rightarrow> jsnum" where
  "js_pow2 NaN = NaN"
| "js_pow2 PInf = PInf"
| "js_pow2 NInf = PInf"
| "js_pow2 (Fin x) = fl64 (x ^ 2)"

text \<open>
  \<^verbatim>\<open>Math.sqrt\<close>, \<^verbatim>\<open>Math.cos\<close>, \<^verbatim>\<open>Math.sin\<close>, \<^verbatim>\<open>Math.min\<close>, \<^verbatim>\<open>Math.floor\<close> and \<^verbatim>\<open>Math.PI\<close>. The
  language leaves the last digit of \<^verbatim>\<open>Math.cos\<close> and \<^verbatim>\<open>Math.sin\<close> to the engine; they are
  taken here as the rounded exact cosine and sine. \<^verbatim>\<open>Math.PI\<close> is the binary64 value next to
  \<open>\<pi>\<close>, \<open>884279719003555 / 2\<^sup>4\<^sup>8\<close>.
\<close>

fun Math_sqrt :: "jsnum \<Rightarrow> jsnum" where
  "Math_sqrt NaN = NaN"
| "Math_sqrt PInf = PInf"
| "Math_sqrt NInf = NaN"
| "Math_sqrt (Fin x) = (if x < 0 then NaN else fl64 (sqrt x))"

fun Math_cos :: "jsnum \<Rightarrow> jsnum" where
  "Math_cos (Fin x) = fl64 (cos x)"
| "Math_cos NaN = NaN"
| "Math_cos PInf = NaN"
| "Math_cos NInf = NaN"

fun Math_sin :: "jsnum \<Rightarrow> jsnum" where
  "Math_sin (Fin x) = fl64 (sin x)"
| "Math_sin NaN = NaN"
| "Math_sin PInf = NaN"
| "Math_sin NInf = NaN"

fun Math_min :: "jsnum \<Rightarrow> jsnum \<Rightarrow> jsnum" where
  "Math_min NaN y = NaN"
| "Math_min PInf NaN = NaN"
| "Math_min PInf PInf = PInf"
| "Math_min PInf NInf = NInf"
| "Math_min PInf (Fin y) = Fin y"
| "Math_min NInf NaN = NaN"
| "Math_min NInf PInf = NInf"
| "Math_min NInf NInf = NInf"
| "Math_min NInf (Fin y) = NInf"
| "Math_min (Fin x) NaN = NaN"
| "Math_min (Fin x) PInf = Fin x"
| "Math_min (Fin x) NInf = NInf"
| "Math_min (Fin x) (Fin y) = Fin (min x y)"

fun Math_floor :: "jsnum \<Rightarrow> jsnum" where
  "Math_floor NaN = NaN"
| "Math_floor PInf = PInf"
| "Math_floor NInf = NInf"
| "Math_floor (Fin x) = Fin (of_int \<lfloor>x\<rfloor>)"

definition Math_PI :: jsnum where
  "Math_PI = Fin (884279719003555 / 2 ^ 48)"

section \<open>The orbital position calculator (src/utils/orbitalMechanics.ts)\<close>

text \<open>The interface \<^verbatim>\<open>PlanetData\<close>; its field \<^verbatim>\<open>size\<close> is written \<open>size_rel\<close> here.\<close>

record PlanetData =
  name :: string
  color :: string
  size_rel :: jsnum
  distance :: jsnum
  period :: jsnum
  eccentricity :: jsnum
  description :: string

definition calculatePlanetPosition :: "PlanetData \<Rightarrow> jsnum \<Rightarrow> jsnum \<times> jsnum \<times> jsnum" where
  "calculatePlanetPosition planet daysOffset =
     (let periodInDays = js_mul (period planet) (Fin 365.25);
          angle = js_mul (js_mul (js_div daysOffset periodInDays) (Fin 2)) Math_PI;
          a = distance planet;
          b = js_mul (distance planet)
                (Math_sqrt (js_sub (Fin 1) (js_pow2 (eccentricity planet))));
          focusOffset = js_mul (distance planet) (eccentricity planet);
          x = js_sub (js_mul a (Math_cos angle)) focusOffset;
          z = js_mul b (Math_sin angle)
      in (x, Fin 0, z))"

text \<open>
  The position as the specification words it: \<open>periodDays = period * 365.25\<close>,
  \<open>angle = (t / periodDays) * 2\<pi>\<close>, \<open>a = distance\<close>, \<open>b = distance * sqrt (1 - e^2)\<close>,
  \<open>f = distance * e\<close>, and the triple \<open>(a * cos angle - f, 0, b * sin angle)\<close>.
\<close>

definition position_spec :: "jsnum \<Rightarrow> jsnum \<Rightarrow> jsnum \<Rightarrow> jsnum \<Rightarrow> jsnum \<times> jsnum \<times> jsnum" where
  "position_spec dst per ecc t =
     (let periodDays = js_mul per (Fin 365.25);
          angle = js_mul (js_div t periodDays) (js_mul (Fin 2) Math_PI);
          a = dst;
          b = js_mul dst (Math_sqrt (js_sub (Fin 1) (js_pow2 ecc)));
          f = js_mul dst ecc
      in (js_sub (js_mul a (Math_cos angle)) f, Fin 0, js_mul b (Math_sin angle)))"

text \<open>The local constant \<^verbatim>\<open>angle\<close> of \<^verbatim>\<open>calculatePlanetPosition\<close>.\<close>

definition computed_angle :: "PlanetData \<Rightarrow> jsnum \<Rightarrow> jsnum" where
  "computed_angle planet daysOffset =
     (let periodInDays = js_mul (period planet) (Fin 365.25)
      in js_mul (js_mul (js_div daysOffset periodInDays) (Fin 2)) Math_PI)"

text \<open>
  The table \<^verbatim>\<open>PLANETS\<close> of the bodies the scene shows. A decimal literal denotes the
  binary64 value next to it.
\<close>

definition Mercury :: PlanetData where
  "Mercury = \<lparr>name = ''Mercury'', color = ''#A5A5A5'', size_rel = fl64 0.38,
     distance = Fin 10, period = fl64 0.24, eccentricity = fl64 0.2,
     description = ''The smallest planet in our solar system and closest to the Sun.''\<rparr>"

definition Venus :: PlanetData where
  "Venus = \<lparr>name = ''Venus'', color = ''#E3BB76'', size_rel = fl64 0.95,
     distance = Fin 15, period = fl64 0.62, eccentricity = fl64 0.007,
     description = ''Spinning in the opposite direction to most planets, Venus is the hottest planet.''\<rparr>"

definition Earth :: PlanetData where
  "Earth = \<lparr>name = ''Earth'', color = ''#22A6B3'', size_rel = Fin 1,
     distance = Fin 20, period = Fin 1.00, eccentricity = fl64 0.017,
     description = ''Our home planet, the only place we know of so far that's inhabited by living things.''\<rparr>"

definition Mars :: PlanetData where
  "Mars = \<lparr>name = ''Mars'', color = ''#DD4B39'', size_rel = fl64 0.53,
     distance = Fin 26, period = fl64 1.88, eccentricity = fl64 0.09,
     description = ''A dusty, cold, desert world with a very thin atmosphere.''\<rparr>"

definition Jupiter :: PlanetData where
  "Jupiter = \<lparr>name = ''Jupiter'', color = ''#D4A373'', size_rel = Fin 2.5,
     distance = Fin 38, period = fl64 11.86, eccentricity = fl64 0.048,
     description = ''More than twice as massive as all the other planets combined.''\<rparr>"

definition Saturn :: PlanetData where
  "Saturn = \<lparr>name = ''Saturn'', color = ''#FAFABE'', size_rel = fl64 2.1,
     distance = Fin 52, period = fl64 29.45, eccentricity = fl64 0.056,
     description = ''Adorned with a dazzling, complex system of icy rings.''\<rparr>"

definition Uranus :: PlanetData where
  "Uranus = \<lparr>name = ''Uranus'', color = ''#A0E6FF'', size_rel = fl64 1.6,
     distance = Fin 68, period = Fin 84.00, eccentricity = fl64 0.046,
     description = ''It rotates at a nearly 90-degree angle from the plane of its orbit.''\<rparr>"

definition Neptune :: PlanetData where
  "Neptune = \<lparr>name = ''Neptune'', color = ''#4B70DD'', size_rel = Fin 1.5,
     distance = Fin 82, period = fl64 164.81, eccentricity = fl64 0.01,
     description = ''The first planet located through mathematical calculations rather than by telescope.''\<rparr>"

definition Pluto :: PlanetData where
  "Pluto = \<lparr>name = ''Pluto'', color = ''#E0Cda9'', size_rel = Fin 0.25,
     distance = Fin 95, period = Fin 248.00, eccentricity = fl64 0.248,
     description = ''A dwarf planet in the Kuiper Belt, a ring of bodies beyond the orbit of Neptune.''\<rparr>"

definition PLANETS :: "PlanetData list" where
  "PLANETS = [Mercury, Venus, Earth, Mars, Jupiter, Saturn, Uranus, Neptune, Pluto]"

text \<open>A body on a circular orbit: the Earth entry with eccentricity 0.\<close>

definition circular_body :: PlanetData where
  "circular_body = Earth\<lparr>eccentricity := Fin 0\<rparr>"

section \<open>The simulation clock (component \<^verbatim>\<open>AppContent\<close>)\<close>

text \<open>
  The state of the clock is the three state variables \<^verbatim>\<open>daysElapsed\<close>, \<^verbatim>\<open>isPlaying\<close> and
  \<^verbatim>\<open>speed\<close> of the component together with its reference cell \<^verbatim>\<open>previousTimeRef\<close>, which
  holds \<^verbatim>\<open>undefined\<close> (\<open>None\<close>) until the first animation frame. The handle of the pending
  animation frame and the selected planet take no part in the clock and are left out.
\<close>

record AppState =
  daysElapsed :: jsnum
  isPlaying :: bool
  speed :: jsnum
  previousTimeRef :: "jsnum option"

definition initialState :: AppState where
  "initialState =
     \<lparr>daysElapsed = Fin 0, isPlaying = True, speed = Fin 1, previousTimeRef = None\<rparr>"

text \<open>
  One animation frame. The effect that starts the frame loop is re-run whenever
  \<^verbatim>\<open>isPlaying\<close> or \<^verbatim>\<open>speed\<close> changes, so a frame always reads their current values; the
  accumulator is read through the functional update \<^verbatim>\<open>setDaysElapsed(prev => ...)\<close>.
\<close>

definition animate :: "AppState \<Rightarrow> jsnum \<Rightarrow> AppState" where
  "animate s time =
     (let s' =
        (case previousTimeRef s of
           None \<Rightarrow> s
         | Some previous \<Rightarrow>
             (let deltaTime = js_sub time previous;
                  cappedDelta = Math_min deltaTime (Fin 100)
              in if isPlaying s
                 then s\<lparr>daysElapsed :=
                        (let prev = daysElapsed s
                         in if isNaN prev then Fin 0
                            else js_add prev (js_mul (speed s) (js_div cappedDelta (Fin 16))))\<rparr>
                 else s))
      in s'\<lparr>previousTimeRef := Some time\<rparr>)"

text \<open>A run of animation frames, one per timestamp.\<close>

fun animate_all :: "AppState \<Rightarrow> jsnum list \<Rightarrow> AppState" where
  "animate_all s [] = s"
| "animate_all s (t # ts) = animate_all (animate s t) ts"

definition handleReset :: "AppState \<Rightarrow> AppState" where
  "handleReset s = s\<lparr>daysElapsed := Fin 0, isPlaying := False\<rparr>"

text \<open>
  The timeline slider: \<^verbatim>\<open>onChange={(e) => setDaysElapsed(parseFloat(e.target.value))}\<close>.
  The argument is the number that \<^verbatim>\<open>parseFloat\<close> returned, \<open>NaN\<close> when the text is no number.
\<close>

definition scrub :: "AppState \<Rightarrow> jsnum \<Rightarrow> AppState" where
  "scrub s v = s\<lparr>daysElapsed := v\<rparr>"

text \<open>The play/pause button, \<^verbatim>\<open>setIsPlaying(!isPlaying)\<close>, and the speed slider.\<close>

definition togglePlaying :: "AppState \<Rightarrow> AppState" where
  "togglePlaying s = s\<lparr>isPlaying := \<not> isPlaying s\<rparr>"

definition setSpeed :: "AppState \<Rightarrow> jsnum \<Rightarrow> AppState" where
  "setSpeed s v = s\<lparr>speed := v\<rparr>"

text \<open>
  What the component hands to its consumers. The scene and the slider receive
  \<^verbatim>\<open>isNaN(daysElapsed) ? 0 : daysElapsed\<close>; the date display uses
  \<^verbatim>\<open>safeDays = isNaN(daysElapsed) ? 0 : Math.floor(daysElapsed)\<close>.
\<close>

definition exposedDaysElapsed :: "AppState \<Rightarrow> jsnum" where
  "exposedDaysElapsed s = (if isNaN (daysElapsed s) then Fin 0 else daysElapsed s)"

definition safeDays :: "AppState \<Rightarrow> jsnum" where
  "safeDays s = (if isNaN (daysElapsed s) then Fin 0 else Math_floor (daysElapsed s))"

text \<open>Two states used as examples: a running clock and the same clock after a reset.\<close>

definition playing_state :: AppState where
  "playing_state =
     \<lparr>daysElapsed = Fin 7, isPlaying = True, speed = Fin 2, previousTimeRef = Some (Fin 500)\<rparr>"

definition clamp_state :: AppState where
  "clamp_state =
     \<lparr>daysElapsed = Fin 3, isPlaying = True, speed = Fin 1, previousTimeRef = Some (Fin 500)\<rparr>"

section \<open>Bodies and values used in the statements\<close>

text \<open>The binary64 values: the reals that the rounding keeps and that do not overflow.\<close>

definition binary64 :: "real \<Rightarrow> bool" where
  "binary64 x \<longleftrightarrow> fl64 x = Fin x"

text \<open>
  Two bodies with a period of \<open>1 / 1024\<close> year, one on a circular and one on an eccentric
  orbit. The interface accepts them; they are not entries of \<^verbatim>\<open>PLANETS\<close>.
\<close>

definition fast_body :: PlanetData where
  "fast_body = \<lparr>name = ''fast'', color = ''#000000'', size_rel = Fin 1,
     distance = Fin 20, period = Fin (1 / 1024), eccentricity = Fin 0, description = ''''\<rparr>"

definition eccentric_fast_body :: PlanetData where
  "eccentric_fast_body = fast_body\<lparr>eccentricity := Fin (1 / 4)\<rparr>"

section \<open>Properties of the rounding\<close>

lemma round_even_err: "\<bar>of_int (round_even y) - y\<bar> \<le> 1 / 2"
proof -
  have "of_int \<lfloor>y\<rfloor> \<le> y" "y < of_int \<lfloor>y\<rfloor> + 1"
    by linarith+
  then show ?thesis
    by (auto simp add: round_even_def Let_def)
qed

lemma round_even_of_int [simp]: "round_even (of_int n) = n"
  by (simp add: round_even_def)

lemma ulp_pos: "0 < ulp x"
  by (simp add: ulp_def)

lemma ulp_simps [simp]: "ulp x \<noteq> 0" "\<bar>ulp x\<bar> = ulp x" "0 \<le> ulp x"
  using ulp_pos [of x] by simp_all

lemma rd_0 [simp]: "rd 0 = 0"
  using round_even_of_int [of 0] by (simp add: rd_def del: round_even_of_int)

text \<open>The rounded value is within half a spacing of the exact one.\<close>

lemma rd_err_ulp: "\<bar>rd x - x\<bar> \<le> ulp x / 2"
proof -
  have "\<bar>rd x - x\<bar> = \<bar>of_int (round_even (x / ulp x)) - x / ulp x\<bar> * ulp x"
  proof -
    have "rd x - x = (of_int (round_even (x / ulp x)) - x / ulp x) * ulp x"
      by (simp add: rd_def field_simps)
    then show ?thesis
      by (simp add: abs_mult)
  qed
  also have "\<dots> \<le> 1 / 2 * ulp x"
    using round_even_err [of "x / ulp x"]
    by (intro mult_right_mono) simp_all
  finally show ?thesis by simp
qed

lemma floor_log_le:
  assumes "x \<noteq> 0"
  shows "2 powr of_int \<lfloor>log 2 \<bar>x\<bar>\<rfloor> \<le> \<bar>x\<bar>"
proof -
  have "of_int \<lfloor>log 2 \<bar>x\<bar>\<rfloor> \<le> log 2 \<bar>x\<bar>"
    by simp
  then have "2 powr of_int \<lfloor>log 2 \<bar>x\<bar>\<rfloor> \<le> 2 powr log 2 \<bar>x\<bar>"
    by (simp only: powr_le_cancel_iff [of 2])
  also have "\<dots> = \<bar>x\<bar>"
    using assms by simp
  finally show ?thesis .
qed

lemma floor_log_gt:
  assumes "x \<noteq> 0"
  shows "\<bar>x\<bar> < 2 powr (of_int \<lfloor>log 2 \<bar>x\<bar>\<rfloor> + 1)"
proof -
  have "log 2 \<bar>x\<bar> < of_int \<lfloor>log 2 \<bar>x\<bar>\<rfloor> + 1"
    by linarith
  then have "2 powr log 2 \<bar>x\<bar> < 2 powr (of_int \<lfloor>log 2 \<bar>x\<bar>\<rfloor> + 1)"
    by (simp only: powr_less_cancel_iff [of 2])
  then show ?thesis
    using assms by simp
qed

lemma ulp_le:
  assumes "x \<noteq> 0"
  shows "ulp x \<le> max (\<bar>x\<bar> / 2 ^ 52) (1 / 2 ^ 1074)"
proof (cases "- 1022 \<le> \<lfloor>log 2 \<bar>x\<bar>\<rfloor>")
  case True
  then have "max \<lfloor>log 2 \<bar>x\<bar>\<rfloor> (- 1022) = \<lfloor>log 2 \<bar>x\<bar>\<rfloor>"
    by (rule max_absorb1)
  then have "ulp x = 2 powr of_int (\<lfloor>log 2 \<bar>x\<bar>\<rfloor> - 52)"
    by (simp only: ulp_def ulp_exp_def)
  also have "\<dots> = 2 powr (of_int \<lfloor>log 2 \<bar>x\<bar>\<rfloor> - 52)"
    by (simp only: of_int_diff of_int_numeral)
  also have "\<dots> = 2 powr of_int \<lfloor>log 2 \<bar>x\<bar>\<rfloor> / 2 ^ 52"
    by (simp add: powr_diff)
  also have "\<dots> \<le> \<bar>x\<bar> / 2 ^ 52"
    using floor_log_le [OF assms] by (simp add: divide_right_mono)
  finally show ?thesis by simp
next
  case False
  then have "max \<lfloor>log 2 \<bar>x\<bar>\<rfloor> (- 1022) = - 1022"
    by (intro max_absorb2) linarith
  then have "ulp x = 2 powr of_int (- 1022 - 52)"
    by (simp only: ulp_def ulp_exp_def)
  also have "\<dots> = 2 powr (- 1074)"
    by simp
  also have "\<dots> = 1 / 2 ^ 1074"
    by (simp add: powr_minus_divide)
  finally show ?thesis by simp
qed

text \<open>
  The standard error bound: a relative error of at most \<open>2 ^ -53\<close>, or an absolute one of
  at most \<open>2 ^ -1075\<close> in the subnormal range.
\<close>

lemma rd_err: "\<bar>rd x - x\<bar> \<le> \<bar>x\<bar> / 2 ^ 53 + 1 / 2 ^ 1075"
proof (cases "x = 0")
  case True
  then show ?thesis by simp
next
  case False
  have "ulp x \<le> \<bar>x\<bar> / 2 ^ 52 + 1 / 2 ^ 1074"
    using ulp_le [OF False] by (auto simp add: max_def split: if_splits intro: order_trans)
  then have "ulp x / 2 \<le> \<bar>x\<bar> / 2 ^ 53 + 1 / 2 ^ 1075"
    by simp
  with rd_err_ulp [of x] show ?thesis
    by linarith
qed

lemma ulp_exp_ge: "- 1074 \<le> ulp_exp x"
  by (simp add: ulp_exp_def)

lemma ulp_exp_ge_floor: "\<lfloor>log 2 \<bar>x\<bar>\<rfloor> - 52 \<le> ulp_exp x"
  by (simp add: ulp_exp_def)

lemma powr_int_diff:
  assumes "j \<le> k"
  shows "2 powr of_int k / 2 powr of_int j = (2::real) ^ nat (k - j)"
proof -
  have "2 powr of_int k / 2 powr of_int j = (2::real) powr (of_int k - of_int j)"
    by (simp add: powr_diff)
  also have "of_int k - of_int j = real (nat (k - j))"
    using assms by simp
  also have "2 powr real (nat (k - j)) = (2::real) ^ nat (k - j)"
    by (simp add: powr_realpow)
  finally show ?thesis .
qed

text \<open>A binary64 value, an integer of less than 53 bits scaled by a power of two, is kept.\<close>

lemma rd_fix:
  assumes x: "x = of_int m * 2 powr of_int k" and m: "\<bar>m\<bar> < 2 ^ 53" and k: "- 1074 \<le> k"
  shows "rd x = x"
proof (cases "m = 0")
  case True
  with x show ?thesis by simp
next
  case False
  then have x0: "x \<noteq> 0"
    using x by simp
  let ?f = "\<lfloor>log 2 \<bar>x\<bar>\<rfloor>"
  have "\<bar>x\<bar> = of_int \<bar>m\<bar> * 2 powr of_int k"
    using x by (simp add: abs_mult)
  also have "\<dots> < 2 ^ 53 * 2 powr of_int k"
  proof -
    have "(of_int \<bar>m\<bar> :: real) < of_int (2 ^ 53)"
      using m by (simp only: of_int_less_iff)
    then show ?thesis by simp
  qed
  also have "\<dots> = 2 powr (53 + of_int k)"
    by (simp add: powr_add)
  finally have "2 powr of_int ?f < (2::real) powr (53 + of_int k)"
    using floor_log_le [OF x0] by linarith
  then have "of_int ?f < (53::real) + of_int k"
    by (simp only: powr_less_cancel_iff [of 2])
  then have "?f < 53 + k"
    by linarith
  then have "?f - 52 \<le> k"
    by linarith
  with k have ue: "ulp_exp x \<le> k"
    by (simp add: ulp_exp_def)
  have "x / ulp x = of_int m * (2 powr of_int k / 2 powr of_int (ulp_exp x))"
    using x by (simp add: ulp_def)
  also have "\<dots> = of_int m * 2 ^ nat (k - ulp_exp x)"
    by (simp only: powr_int_diff [OF ue])
  also have "\<dots> = of_int (m * 2 ^ nat (k - ulp_exp x))"
    by simp
  finally have q: "x / ulp x = of_int (m * 2 ^ nat (k - ulp_exp x))" .
  have "rd x = x / ulp x * ulp x"
    unfolding rd_def by (simp only: q round_even_of_int)
  then show ?thesis by simp
qed

lemma quotient_ulp_less:
  assumes "x \<noteq> 0"
  shows "\<bar>x / ulp x\<bar> < 2 ^ 53"
proof -
  let ?f = "\<lfloor>log 2 \<bar>x\<bar>\<rfloor>"
  have "(2::real) powr (of_int ?f - 52) \<le> ulp x"
  proof -
    have "(of_int ?f - 52 :: real) \<le> of_int (ulp_exp x)"
      using ulp_exp_ge_floor [of x] by linarith
    then show ?thesis
      unfolding ulp_def by (simp only: powr_le_cancel_iff [of 2])
  qed
  then have "2 ^ 53 * 2 powr (of_int ?f - 52) \<le> 2 ^ 53 * ulp x"
    by simp
  moreover have "2 ^ 53 * 2 powr (of_int ?f - 52) = (2::real) powr (of_int ?f + 1)"
  proof -
    have "(2::real) ^ 53 = 2 powr 53"
      by simp
    then have "2 ^ 53 * 2 powr (of_int ?f - 52) = (2::real) powr (53 + (of_int ?f - 52))"
      by (simp only: powr_add)
    then show ?thesis by (simp add: algebra_simps)
  qed
  ultimately have "\<bar>x\<bar> < 2 ^ 53 * ulp x"
    using floor_log_gt [OF assms] by linarith
  then show ?thesis
    by (simp add: abs_divide pos_divide_less_eq ulp_pos)
qed

text \<open>Every rounded value is a binary64 value in that sense.\<close>

lemma rd_form: "\<exists>m k. rd x = of_int m * 2 powr of_int k \<and> \<bar>m\<bar> < 2 ^ 53 \<and> - 1074 \<le> k"
proof (cases "x = 0")
  case True
  have "rd x = of_int 0 * 2 powr of_int 0 \<and> \<bar>0::int\<bar> < 2 ^ 53 \<and> (- 1074::int) \<le> 0"
    using True by simp
  then show ?thesis by blast
next
  case False
  let ?n = "round_even (x / ulp x)"
  have rd: "rd x = of_int ?n * 2 powr of_int (ulp_exp x)"
    by (simp add: rd_def ulp_def)
  have "\<bar>of_int ?n\<bar> \<le> \<bar>x / ulp x\<bar> + 1 / 2"
    using round_even_err [of "x / ulp x"] by linarith
  then have "\<bar>of_int ?n :: real\<bar> < 2 ^ 53 + 1 / 2"
    using quotient_ulp_less [OF False] by linarith
  then have "real_of_int \<bar>?n\<bar> < of_int (2 ^ 53) + 1 / 2"
    by simp
  then have n: "\<bar>?n\<bar> \<le> 2 ^ 53"
    by linarith
  show ?thesis
  proof (cases "\<bar>?n\<bar> < 2 ^ 53")
    case True
    with rd ulp_exp_ge [of x] show ?thesis by blast
  next
    case False
    with n have top: "\<bar>?n\<bar> = 2 ^ 53"
      by linarith
    then have "?n = 9007199254740992 \<or> ?n = - 9007199254740992"
      by (simp add: abs_if split: if_splits)
    then have half: "?n = 2 * (?n div 2)" and small: "\<bar>?n div 2\<bar> < 2 ^ 53"
      by auto
    have "rd x = of_int (2 * (?n div 2)) * 2 powr of_int (ulp_exp x)"
      using rd half by simp
    also have "\<dots> = of_int (?n div 2) * (2 powr 1 * 2 powr of_int (ulp_exp x))"
      by simp
    also have "2 powr 1 * 2 powr of_int (ulp_exp x) = (2::real) powr of_int (ulp_exp x + 1)"
      by (simp add: powr_add)
    finally have "rd x = of_int (?n div 2) * 2 powr of_int (ulp_exp x + 1)" .
    moreover have "- 1074 \<le> ulp_exp x + 1"
      using ulp_exp_ge [of x] by linarith
    ultimately show ?thesis
      using small by blast
  qed
qed

lemma rd_idem [simp]: "rd (rd x) = rd x"
proof -
  obtain m k where "rd x = of_int m * 2 powr of_int k" "\<bar>m\<bar> < 2 ^ 53" "- 1074 \<le> k"
    using rd_form [of x] by blast
  then show ?thesis
    by (rule rd_fix)
qed

text \<open>Doubling a binary64 value is exact.\<close>

lemma rd_double: "rd (2 * rd x) = 2 * rd x"
proof -
  obtain m k where r: "rd x = of_int m * 2 powr of_int k" and m: "\<bar>m\<bar> < 2 ^ 53" and k: "- 1074 \<le> k"
    using rd_form [of x] by blast
  have "2 * rd x = of_int m * (2 powr 1 * 2 powr of_int k)"
    using r by simp
  also have "2 powr 1 * 2 powr of_int k = (2::real) powr of_int (k + 1)"
    by (simp add: powr_add)
  finally have "2 * rd x = of_int m * 2 powr of_int (k + 1)" .
  moreover have "- 1074 \<le> k + 1"
    using k by linarith
  ultimately show ?thesis
    using m by (intro rd_fix)
qed

text \<open>Integers and quarters of less than 53 bits are binary64 values.\<close>

lemma rd_of_int: "\<bar>m\<bar> < 2 ^ 53 \<Longrightarrow> rd (of_int m) = of_int m"
  using rd_fix [of "of_int m" m 0] by simp

lemma rd_quarters: "\<bar>m\<bar> < 2 ^ 53 \<Longrightarrow> rd (of_int m / 4) = of_int m / 4"
  using rd_fix [of "of_int m / 4" m "- 2"] by (simp add: powr_minus_divide)

lemma rd_numeral [simp]: "numeral n < (2::int) ^ 53 \<Longrightarrow> rd (numeral n) = numeral n"
proof -
  assume "numeral n < (2::int) ^ 53"
  then have "\<bar>numeral n :: int\<bar> < 2 ^ 53"
    by (simp only: abs_numeral)
  from rd_of_int [OF this] show ?thesis
    by (simp only: of_int_numeral)
qed

lemma rd_1 [simp]: "rd 1 = 1"
  using rd_of_int [of 1] by simp

lemma rd_numeral_quarters [simp]:
  "numeral n < (2::int) ^ 53 \<Longrightarrow> rd (numeral n / 4) = numeral n / 4"
proof -
  assume "numeral n < (2::int) ^ 53"
  then have "\<bar>numeral n :: int\<bar> < 2 ^ 53"
    by (simp only: abs_numeral)
  from rd_quarters [OF this] show ?thesis
    by (simp only: of_int_numeral)
qed

lemma fl64_Fin: "\<bar>x\<bar> < 2 ^ 1024 - 2 ^ 970 \<Longrightarrow> fl64 x = Fin (rd x)"
  by (simp add: fl64_def)

lemma fl64_0 [simp]: "fl64 0 = Fin 0"
  by (simp add: fl64_def)

lemma rd_abs_le: "\<bar>rd x\<bar> \<le> \<bar>x\<bar> + (\<bar>x\<bar> / 2 ^ 53 + 1 / 2 ^ 1075)"
  using rd_err [of x] by linarith

lemma fl64_rd_fix: "rd x = x \<Longrightarrow> \<bar>x\<bar> < 2 ^ 53 \<Longrightarrow> fl64 x = Fin x"
proof -
  assume "rd x = x" and "\<bar>x\<bar> < 2 ^ 53"
  moreover have "(2::real) ^ 53 < 2 ^ 1024 - 2 ^ 970"
    by simp
  ultimately show ?thesis
    by (simp add: fl64_def)
qed

lemma numeral_less_real:
  assumes "numeral n < (2::int) ^ 53"
  shows "\<bar>numeral n :: real\<bar> < 2 ^ 53"
proof -
  have "real_of_int (numeral n) < real_of_int (2 ^ 53)"
    using assms by (simp only: of_int_less_iff)
  then have "(numeral n :: real) < 2 ^ 53"
    by (simp only: of_int_numeral of_int_power)
  then show ?thesis
    by (simp only: abs_numeral)
qed

lemma fl64_numeral [simp]: "numeral n < (2::int) ^ 53 \<Longrightarrow> fl64 (numeral n) = Fin (numeral n)"
  by (intro fl64_rd_fix rd_numeral numeral_less_real)

lemma fl64_1 [simp]: "fl64 1 = Fin 1"
  by (intro fl64_rd_fix) simp_all

lemma fl64_numeral_quarters [simp]:
  "numeral n < (2::int) ^ 53 \<Longrightarrow> fl64 (numeral n / 4) = Fin (numeral n / 4)"
proof -
  assume n: "numeral n < (2::int) ^ 53"
  have "\<bar>x / 4\<bar> \<le> \<bar>x\<bar>" for x :: real
    by simp
  then have "\<bar>numeral n / 4 :: real\<bar> \<le> \<bar>numeral n\<bar>" .
  then have "\<bar>numeral n / 4 :: real\<bar> < 2 ^ 53"
    using numeral_less_real [OF n] by (rule le_less_trans)
  with rd_numeral_quarters [OF n] show ?thesis
    by (intro fl64_rd_fix)
qed

section \<open>Properties of the number model\<close>

lemma isNaN_iff: "isNaN x \<longleftrightarrow> x = NaN"
  by (cases x) simp_all

lemma Math_floor_NaN_iff: "Math_floor x = NaN \<longleftrightarrow> x = NaN"
  by (cases x) simp_all

lemma js_mul_NaN_right [simp]: "js_mul x NaN = NaN"
  by (cases x) simp_all

text \<open>A finite quotient is a binary64 value.\<close>

lemma js_div_rounded:
  assumes "js_div a b = Fin z"
  shows "rd z = z"
proof (cases a)
  case (Fin x)
  show ?thesis
  proof (cases b)
    case (Fin y)
    with \<open>a = Fin x\<close> assms have "fl64 (x / y) = Fin z"
      by (simp split: if_splits)
    then have "z = rd (x / y)"
      by (simp add: fl64_def split: if_splits)
    then show ?thesis by simp
  qed (use \<open>a = Fin x\<close> assms in auto)
qed (use assms in \<open>cases b; simp split: if_splits\<close>)+

text \<open>
  Doubling the quotient first and multiplying by \<^verbatim>\<open>Math.PI\<close> afterwards, as the source does,
  gives the same number as multiplying the quotient by the double of \<^verbatim>\<open>Math.PI\<close>.
\<close>

lemma js_mul_two_pi:
  "js_mul (js_mul (js_div a b) (Fin 2)) Math_PI = js_mul (js_div a b) (js_mul (Fin 2) Math_PI)"
proof -
  define p :: real where "p = 884279719003555 / 2 ^ 48"
  have p1: "1 \<le> p"
    by (simp add: p_def)
  have "rd (2 * p) = 2 * p"
    using rd_fix [of "2 * p" 884279719003555 "- 47"] by (simp add: p_def powr_minus_divide)
  moreover have "\<bar>2 * p\<bar> < 2 ^ 1024 - 2 ^ 970"
    by (simp add: p_def)
  ultimately have two_p: "js_mul (Fin 2) (Fin p) = Fin (2 * p)"
    by (simp add: fl64_Fin)
  have "js_mul (js_mul q (Fin 2)) (Fin p) = js_mul q (Fin (2 * p))"
    if q: "q = js_div a b" for q
  proof (cases q)
    case (Fin z)
    then have z: "rd z = z"
      using q js_div_rounded [of a b z] by simp
    show ?thesis
    proof (cases "2 ^ 1024 - 2 ^ 970 \<le> \<bar>z * 2\<bar>")
      case True
      have "\<bar>z * 2\<bar> * 1 \<le> \<bar>z * 2\<bar> * p"
        using p1 by (intro mult_left_mono) simp_all
      then have big: "2 ^ 1024 - 2 ^ 970 \<le> \<bar>z * (2 * p)\<bar>"
        using True p1 by (simp add: abs_mult)
      have sign: "0 < z * (2 * p) \<longleftrightarrow> 0 < z * 2"
        using p1 by (simp add: zero_less_mult_iff)
      show ?thesis
        using True big sign p1 Fin by (simp add: fl64_def)
    next
      case False
      have "rd (z * 2) = z * 2"
        using rd_double [of z] z by (simp add: mult.commute)
      with False have "js_mul (Fin z) (Fin 2) = Fin (z * 2)"
        by (simp add: fl64_def)
      then show ?thesis
        using Fin by (simp add: mult.assoc)
    qed
  qed (use p1 in simp_all)
  then have "js_mul (js_mul (js_div a b) (Fin 2)) (Fin p) =
      js_mul (js_div a b) (js_mul (Fin 2) (Fin p))"
    by (simp only: two_p)
  then show ?thesis
    by (simp only: Math_PI_def p_def)
qed

lemma round_even_le: "y \<le> of_int N \<Longrightarrow> round_even y \<le> N"
proof -
  assume y: "y \<le> of_int N"
  show ?thesis
  proof (cases "y = of_int N")
    case True
    then show ?thesis by simp
  next
    case False
    with y have "y < of_int N" by simp
    then have "\<lfloor>y\<rfloor> < N"
      by (simp add: floor_less_iff)
    then show ?thesis
      by (simp add: round_even_def Let_def)
  qed
qed

lemma round_even_ge: "of_int N \<le> y \<Longrightarrow> N \<le> round_even y"
proof -
  assume "of_int N \<le> y"
  then have "N \<le> \<lfloor>y\<rfloor>"
    by (simp add: le_floor_iff)
  then show ?thesis
    by (simp add: round_even_def Let_def)
qed

lemma ulp_exp_le:
  assumes x0: "x \<noteq> 0" and x: "\<bar>x\<bar> < 2 ^ 53 * 2 powr of_int k" and k: "- 1074 \<le> k"
  shows "ulp_exp x \<le> k"
proof -
  let ?f = "\<lfloor>log 2 \<bar>x\<bar>\<rfloor>"
  have "2 ^ 53 * 2 powr of_int k = (2::real) powr (53 + of_int k)"
    by (simp add: powr_add)
  with x have "2 powr of_int ?f < (2::real) powr (53 + of_int k)"
    using floor_log_le [OF x0] by linarith
  then have "of_int ?f < (53::real) + of_int k"
    by (simp only: powr_less_cancel_iff [of 2])
  then have "?f - 52 \<le> k"
    by linarith
  with k show ?thesis
    by (simp add: ulp_exp_def)
qed

text \<open>Rounding never crosses a binary64 value.\<close>

lemma rd_abs_le_double:
  assumes D: "D = of_int m * 2 powr of_int k" and m: "\<bar>m\<bar> < 2 ^ 53" and k: "- 1074 \<le> k"
    and x: "\<bar>x\<bar> \<le> D"
  shows "\<bar>rd x\<bar> \<le> D"
proof (cases "x = 0")
  case True
  with x show ?thesis by simp
next
  case False
  have "D = \<bar>D\<bar>"
    using x by linarith
  also have "\<dots> = of_int \<bar>m\<bar> * 2 powr of_int k"
    using D by (simp add: abs_mult)
  finally have D': "D = of_int \<bar>m\<bar> * 2 powr of_int k" .
  have "(of_int \<bar>m\<bar> :: real) < of_int (2 ^ 53)"
    using m by (simp only: of_int_less_iff)
  then have "D < 2 ^ 53 * 2 powr of_int k"
    using D' by simp
  with x have "\<bar>x\<bar> < 2 ^ 53 * 2 powr of_int k"
    by linarith
  then have ue: "ulp_exp x \<le> k"
    using False k by (intro ulp_exp_le)
  define N where "N = \<bar>m\<bar> * 2 ^ nat (k - ulp_exp x)"
  have "D / ulp x = of_int \<bar>m\<bar> * (2 powr of_int k / 2 powr of_int (ulp_exp x))"
    using D' by (simp add: ulp_def)
  also have "\<dots> = of_int \<bar>m\<bar> * 2 ^ nat (k - ulp_exp x)"
    by (simp only: powr_int_diff [OF ue])
  also have "\<dots> = of_int N"
    by (simp add: N_def)
  finally have DN: "D / ulp x = of_int N" .
  define y where "y = x / ulp x"
  have "\<bar>y\<bar> = \<bar>x\<bar> / ulp x"
    by (simp add: y_def abs_divide)
  also have "\<dots> \<le> D / ulp x"
    using x by (intro divide_right_mono) simp_all
  also have "\<dots> = of_int N"
    by (rule DN)
  finally have q: "\<bar>y\<bar> \<le> of_int N" .
  have "- real_of_int N \<le> y" and up: "y \<le> of_int N"
    using q by linarith+
  then have "of_int (- N) \<le> y"
    by simp
  then have "- N \<le> round_even y"
    by (rule round_even_ge)
  moreover have "round_even y \<le> N"
    using up by (rule round_even_le)
  ultimately have "\<bar>round_even (x / ulp x)\<bar> \<le> N"
    unfolding y_def by linarith
  then have "\<bar>of_int (round_even (x / ulp x)) :: real\<bar> \<le> of_int N"
    by (metis of_int_abs of_int_le_iff)
  then have "\<bar>rd x\<bar> \<le> of_int N * ulp x"
    by (simp add: rd_def abs_mult mult_right_mono)
  also have "\<dots> = D"
    using DN by (simp add: field_simps)
  finally show ?thesis .
qed

lemma rd_abs_le_rd: "\<bar>x\<bar> \<le> \<bar>rd y\<bar> \<Longrightarrow> \<bar>rd x\<bar> \<le> \<bar>rd y\<bar>"
proof -
  assume x: "\<bar>x\<bar> \<le> \<bar>rd y\<bar>"
  obtain m k where r: "rd y = of_int m * 2 powr of_int k" and m: "\<bar>m\<bar> < 2 ^ 53" and k: "- 1074 \<le> k"
    using rd_form [of y] by blast
  have "\<bar>rd y\<bar> = of_int \<bar>m\<bar> * 2 powr of_int k"
    using r by (simp add: abs_mult)
  moreover have "\<bar>\<bar>m\<bar>\<bar> < 2 ^ 53"
    using m by simp
  ultimately show ?thesis
    using k x by (rule rd_abs_le_double)
qed

lemma rd_abs_le_1: "\<bar>x\<bar> \<le> 1 \<Longrightarrow> \<bar>rd x\<bar> \<le> 1"
  using rd_abs_le_rd [of x 1] by simp

lemma rd_nonneg: "0 \<le> x \<Longrightarrow> 0 \<le> rd x"
proof -
  assume "0 \<le> x"
  then have "of_int 0 \<le> x / ulp x"
    by simp
  then have "0 \<le> round_even (x / ulp x)"
    by (rule round_even_ge)
  then show ?thesis
    by (simp add: rd_def)
qed

lemma Math_cos_Fin [simp]: "Math_cos (Fin x) = Fin (rd (cos x))"
proof -
  have "\<bar>cos x\<bar> \<le> 1" by simp
  moreover have "(1::real) < 2 ^ 1024 - 2 ^ 970" by simp
  ultimately have "\<bar>cos x\<bar> < 2 ^ 1024 - 2 ^ 970" by linarith
  then show ?thesis by (simp add: fl64_Fin)
qed

lemma Math_sin_Fin [simp]: "Math_sin (Fin x) = Fin (rd (sin x))"
proof -
  have "\<bar>sin x\<bar> \<le> 1" by simp
  moreover have "(1::real) < 2 ^ 1024 - 2 ^ 970" by simp
  ultimately have "\<bar>sin x\<bar> < 2 ^ 1024 - 2 ^ 970" by linarith
  then show ?thesis by (simp add: fl64_Fin)
qed


section \<open>The position calculator: the formula\<close>

lemma calculatePlanetPosition_angle:
  "calculatePlanetPosition planet t =
     (js_sub (js_mul (distance planet) (Math_cos (computed_angle planet t)))
        (js_mul (distance planet) (eccentricity planet)),
      Fin 0,
      js_mul (js_mul (distance planet)
                (Math_sqrt (js_sub (Fin 1) (js_pow2 (eccentricity planet)))))
        (Math_sin (computed_angle planet t)))"
  by (simp add: calculatePlanetPosition_def computed_angle_def Let_def)

text \<open>
  C1. For every body and every elapsed time \<open>t\<close>, \<open>calculatePlanetPosition\<close> returns exactly
  the triple \<open>(a * cos angle - f, 0, b * sin angle)\<close> with \<open>periodDays = period * 365.25\<close>,
  \<open>angle = (t / periodDays) * 2\<pi>\<close>, \<open>a = distance\<close>, \<open>b = distance * sqrt (1 - e^2)\<close> and
  \<open>f = distance * e\<close>, every operation being the one of the language. This holds for all
  numbers, the special values included.
\<close>

theorem position_formula:
  "calculatePlanetPosition body t =
     position_spec (distance body) (period body) (eccentricity body) t"
  by (simp add: calculatePlanetPosition_def position_spec_def Let_def js_mul_two_pi)

lemma binary64D:
  assumes "binary64 x"
  shows "rd x = x" and "\<bar>x\<bar> < 2 ^ 1024 - 2 ^ 970"
  using assms by (simp_all add: binary64_def fl64_def split: if_splits)

lemma big_less: "(2::real) ^ 1023 < 2 ^ 1024 - 2 ^ 970"
  by simp

lemma fl64_Fin_le: "\<bar>x\<bar> \<le> 2 ^ 1023 \<Longrightarrow> fl64 x = Fin (rd x)"
  using big_less by (intro fl64_Fin) linarith

text \<open>A product with a factor of magnitude at most \<open>1\<close> stays below a binary64 value.\<close>

lemma rd_mult_le:
  assumes "rd d = d" "\<bar>y\<bar> \<le> 1"
  shows "\<bar>rd (d * y)\<bar> \<le> \<bar>d\<bar>"
proof -
  have "\<bar>d * y\<bar> \<le> \<bar>d\<bar> * 1"
    unfolding abs_mult using assms(2) by (intro mult_left_mono) simp_all
  then have "\<bar>d * y\<bar> \<le> \<bar>rd d\<bar>"
    using assms(1) by simp
  then have "\<bar>rd (d * y)\<bar> \<le> \<bar>rd d\<bar>"
    by (rule rd_abs_le_rd)
  then show ?thesis
    using assms(1) by simp
qed

lemma mult_le_abs:
  fixes d y :: real
  assumes "\<bar>y\<bar> \<le> 1"
  shows "\<bar>d * y\<bar> \<le> \<bar>d\<bar>"
proof -
  have "\<bar>d * y\<bar> \<le> \<bar>d\<bar> * 1"
    unfolding abs_mult using assms by (intro mult_left_mono) simp_all
  then show ?thesis by simp
qed

text \<open>
  The result on a finite angle, operation by operation: nothing overflows when the
  distance is a binary64 value of magnitude at most \<open>2 ^ 1022\<close> and the eccentricity has
  magnitude at most \<open>1\<close>.
\<close>

lemma position_finite:
  assumes d: "distance b = Fin d" "binary64 d" "\<bar>d\<bar> \<le> 2 ^ 1022"
    and e: "eccentricity b = Fin e" "\<bar>e\<bar> \<le> 1"
    and a: "computed_angle b t = Fin \<theta>"
  shows "calculatePlanetPosition b t =
     (Fin (rd (rd (d * rd (cos \<theta>)) - rd (d * e))), Fin 0,
      Fin (rd (rd (d * rd (sqrt (rd (1 - rd (e\<^sup>2))))) * rd (sin \<theta>))))"
proof -
  note dd = binary64D [OF d(2)]
  have d23: "\<bar>d\<bar> \<le> 2 ^ 1023"
    using d(3) by simp
  have C: "\<bar>rd (cos \<theta>)\<bar> \<le> 1" and S: "\<bar>rd (sin \<theta>)\<bar> \<le> 1"
    by (simp_all add: rd_abs_le_1)
  have Y: "js_mul (Fin d) (Fin (rd (cos \<theta>))) = Fin (rd (d * rd (cos \<theta>)))"
    using mult_le_abs [OF C, of d] d23 by (simp add: fl64_Fin_le)
  have F: "js_mul (Fin d) (Fin e) = Fin (rd (d * e))"
    using mult_le_abs [OF e(2), of d] d23 by (simp add: fl64_Fin_le)
  have "\<bar>rd (d * rd (cos \<theta>)) - rd (d * e)\<bar> \<le> \<bar>d\<bar> + \<bar>d\<bar>"
    using rd_mult_le [OF dd(1) C] rd_mult_le [OF dd(1) e(2)] by linarith
  then have "\<bar>rd (d * rd (cos \<theta>)) - rd (d * e)\<bar> \<le> 2 ^ 1023"
    using d(3) by simp
  then have X: "js_sub (Fin (rd (d * rd (cos \<theta>)))) (Fin (rd (d * e))) =
      Fin (rd (rd (d * rd (cos \<theta>)) - rd (d * e)))"
    by (simp add: fl64_Fin_le)
  have e2: "0 \<le> e\<^sup>2" "e\<^sup>2 \<le> 1"
    using e(2) by (simp_all add: abs_square_le_1)
  have g: "0 \<le> rd (e\<^sup>2)" "rd (e\<^sup>2) \<le> 1"
    using rd_nonneg [OF e2(1)] rd_abs_le_1 [of "e\<^sup>2"] e2 by simp_all
  have G: "js_pow2 (Fin e) = Fin (rd (e\<^sup>2))"
    using e2 by (simp add: fl64_Fin_le)
  have h: "0 \<le> rd (1 - rd (e\<^sup>2))" "rd (1 - rd (e\<^sup>2)) \<le> 1"
    using rd_nonneg [of "1 - rd (e\<^sup>2)"] rd_abs_le_1 [of "1 - rd (e\<^sup>2)"] g by simp_all
  have H: "js_sub (Fin 1) (Fin (rd (e\<^sup>2))) = Fin (rd (1 - rd (e\<^sup>2)))"
    using g by (simp add: fl64_Fin_le)
  have sq: "\<bar>sqrt (rd (1 - rd (e\<^sup>2)))\<bar> \<le> 1"
    using h by simp
  have q: "\<bar>rd (sqrt (rd (1 - rd (e\<^sup>2))))\<bar> \<le> 1"
    using sq by (rule rd_abs_le_1)
  have "\<bar>sqrt (rd (1 - rd (e\<^sup>2)))\<bar> \<le> 2 ^ 1023"
    using sq by (rule order_trans) simp
  then have Q: "Math_sqrt (Fin (rd (1 - rd (e\<^sup>2)))) = Fin (rd (sqrt (rd (1 - rd (e\<^sup>2)))))"
    using h by (simp add: fl64_Fin_le)
  have B: "js_mul (Fin d) (Fin (rd (sqrt (rd (1 - rd (e\<^sup>2)))))) =
      Fin (rd (d * rd (sqrt (rd (1 - rd (e\<^sup>2))))))"
    using mult_le_abs [OF q, of d] d23 by (simp add: fl64_Fin_le)
  have "\<bar>rd (d * rd (sqrt (rd (1 - rd (e\<^sup>2))))) * rd (sin \<theta>)\<bar> \<le>
      \<bar>rd (d * rd (sqrt (rd (1 - rd (e\<^sup>2)))))\<bar>"
    by (rule mult_le_abs [OF S])
  also have "\<dots> \<le> \<bar>d\<bar>"
    by (rule rd_mult_le [OF dd(1) q])
  finally have Z: "js_mul (Fin (rd (d * rd (sqrt (rd (1 - rd (e\<^sup>2))))))) (Fin (rd (sin \<theta>))) =
      Fin (rd (rd (d * rd (sqrt (rd (1 - rd (e\<^sup>2))))) * rd (sin \<theta>)))"
    using d23 by (simp add: fl64_Fin_le)
  show ?thesis
    unfolding calculatePlanetPosition_angle
    by (simp only: d(1) e(1) a Math_cos_Fin Math_sin_Fin Y F X G H Q B Z)
qed


lemma tiny_le:
  fixes d :: real
  assumes "1 / 2 ^ 1022 \<le> \<bar>d\<bar>"
  shows "1 / 2 ^ 1075 \<le> \<bar>d\<bar> / 2 ^ 53"
proof -
  have "1 / 2 ^ 1022 / 2 ^ 53 \<le> \<bar>d\<bar> / 2 ^ 53"
    using assms by (intro divide_right_mono) simp_all
  moreover have "(1::real) / 2 ^ 1022 / 2 ^ 53 = 1 / 2 ^ 1075"
    by simp
  ultimately show ?thesis by simp
qed

text \<open>
  The rounded product of a normal binary64 distance with a rounded cosine or sine is
  within four rounding units of the exact product.
\<close>

lemma rd_trig_err:
  assumes c: "\<bar>c\<bar> \<le> 1" and d: "1 / 2 ^ 1022 \<le> \<bar>d\<bar>"
  shows "\<bar>rd (d * rd c) - d * c\<bar> \<le> \<bar>d\<bar> / 2 ^ 51"
proof -
  define \<eta> :: real where "\<eta> = 1 / 2 ^ 1075"
  define D where "D = \<bar>d\<bar>"
  have eta: "0 \<le> \<eta>" "\<eta> \<le> 1 / 2 ^ 53" "\<eta> \<le> D / 2 ^ 53"
    using tiny_le [OF d] by (simp_all add: \<eta>_def D_def)
  have D0: "0 \<le> D"
    by (simp add: D_def)
  have C1: "\<bar>rd c\<bar> \<le> 1"
    using c by (rule rd_abs_le_1)
  have "\<bar>rd c - c\<bar> \<le> \<bar>c\<bar> / 2 ^ 53 + \<eta>"
    unfolding \<eta>_def by (rule rd_err)
  moreover have "\<bar>c\<bar> / 2 ^ 53 \<le> 1 / 2 ^ 53"
    using c by (intro divide_right_mono) simp_all
  ultimately have Cc: "\<bar>rd c - c\<bar> \<le> 1 / 2 ^ 53 + \<eta>"
    by linarith
  have "\<bar>d * rd c - d * c\<bar> = D * \<bar>rd c - c\<bar>"
    by (simp add: D_def abs_mult [symmetric] right_diff_distrib)
  also have "\<dots> \<le> D * (1 / 2 ^ 53 + \<eta>)"
    using Cc D0 by (rule mult_left_mono)
  finally have e1: "\<bar>d * rd c - d * c\<bar> \<le> D / 2 ^ 53 + D * \<eta>"
    by (simp add: distrib_left)
  have "D * \<eta> \<le> D * (1 / 2 ^ 53)"
    using eta(2) D0 by (rule mult_left_mono)
  then have e2: "D * \<eta> \<le> D / 2 ^ 53"
    by simp
  have "\<bar>d * rd c\<bar> \<le> D"
    unfolding D_def by (rule mult_le_abs [OF C1])
  then have "\<bar>d * rd c\<bar> / 2 ^ 53 \<le> D / 2 ^ 53"
    by (intro divide_right_mono) simp_all
  moreover have "\<bar>rd (d * rd c) - d * rd c\<bar> \<le> \<bar>d * rd c\<bar> / 2 ^ 53 + \<eta>"
    unfolding \<eta>_def by (rule rd_err)
  ultimately have e3: "\<bar>rd (d * rd c) - d * rd c\<bar> \<le> D / 2 ^ 53 + \<eta>"
    by linarith
  have "\<bar>rd (d * rd c) - d * c\<bar> \<le> 4 * (D / 2 ^ 53)"
    using e1 e2 e3 eta(3) by linarith
  then show ?thesis
    by (simp add: D_def)
qed

text \<open>A point within \<open>k * |d|\<close> of a point of the circle of radius \<open>|d|\<close> is nearly on it.\<close>

lemma circle_perturb:
  fixes d c s X Z k :: real
  assumes cs: "c\<^sup>2 + s\<^sup>2 = 1"
    and X: "\<bar>X - d * c\<bar> \<le> k * \<bar>d\<bar>" and Z: "\<bar>Z - d * s\<bar> \<le> k * \<bar>d\<bar>"
    and k: "0 \<le> k" "k \<le> 1"
  shows "\<bar>X\<^sup>2 + Z\<^sup>2 - d\<^sup>2\<bar> \<le> 6 * k * d\<^sup>2"
proof -
  define ex where "ex = X - d * c"
  define ez where "ez = Z - d * s"
  define D where "D = \<bar>d\<bar>"
  have D0: "0 \<le> D" and D2: "D * D = d\<^sup>2"
    by (simp_all add: D_def power2_eq_square)
  have kD: "0 \<le> k * D"
    using k D0 by simp
  have ex: "\<bar>ex\<bar> \<le> k * D" and ez: "\<bar>ez\<bar> \<le> k * D"
    using X Z by (simp_all add: ex_def ez_def D_def)
  have "c\<^sup>2 \<le> 1" and "s\<^sup>2 \<le> 1"
    using cs zero_le_power2 [of s] zero_le_power2 [of c] by linarith+
  then have c1: "\<bar>c\<bar> \<le> 1" and s1: "\<bar>s\<bar> \<le> 1"
    by (simp_all add: abs_square_le_1)
  have "X\<^sup>2 + Z\<^sup>2 - d\<^sup>2 =
      d\<^sup>2 * (c\<^sup>2 + s\<^sup>2 - 1) + 2 * (d * c * ex) + 2 * (d * s * ez) + ex * ex + ez * ez"
    by (simp add: ex_def ez_def power2_eq_square algebra_simps)
  then have split: "X\<^sup>2 + Z\<^sup>2 - d\<^sup>2 = 2 * (d * c * ex) + 2 * (d * s * ez) + ex * ex + ez * ez"
    using cs by simp
  have t1: "\<bar>d * c * ex\<bar> \<le> D * (k * D)"
  proof -
    have "\<bar>d * c * ex\<bar> = D * (\<bar>c\<bar> * \<bar>ex\<bar>)"
      by (simp add: D_def abs_mult)
    also have "\<bar>c\<bar> * \<bar>ex\<bar> \<le> 1 * (k * D)"
      using c1 ex by (intro mult_mono) simp_all
    finally show ?thesis
      using D0 by (simp add: mult_left_mono)
  qed
  have t2: "\<bar>d * s * ez\<bar> \<le> D * (k * D)"
  proof -
    have "\<bar>d * s * ez\<bar> = D * (\<bar>s\<bar> * \<bar>ez\<bar>)"
      by (simp add: D_def abs_mult)
    also have "\<bar>s\<bar> * \<bar>ez\<bar> \<le> 1 * (k * D)"
      using s1 ez by (intro mult_mono) simp_all
    finally show ?thesis
      using D0 by (simp add: mult_left_mono)
  qed
  have sq: "\<bar>e\<bar> \<le> k * D \<Longrightarrow> \<bar>e * e\<bar> \<le> D * (k * D)" for e
  proof -
    assume e: "\<bar>e\<bar> \<le> k * D"
    have "\<bar>e * e\<bar> = \<bar>e\<bar> * \<bar>e\<bar>"
      by (simp add: abs_mult)
    also have "\<dots> \<le> (k * D) * (k * D)"
      using e by (intro mult_mono) simp_all
    also have "\<dots> = k * (D * (k * D))"
      by simp
    also have "\<dots> \<le> 1 * (D * (k * D))"
      using k D0 kD by (intro mult_right_mono) simp_all
    finally show ?thesis by simp
  qed
  have "\<bar>X\<^sup>2 + Z\<^sup>2 - d\<^sup>2\<bar> \<le> 6 * (D * (k * D))"
    using t1 t2 sq [OF ex] sq [OF ez] unfolding split by linarith
  also have "6 * (D * (k * D)) = 6 * k * (D * D)"
    by simp
  finally show ?thesis
    by (simp only: D2)
qed


lemma binary64_numeral [simp]: "numeral n < (2::int) ^ 53 \<Longrightarrow> binary64 (numeral n)"
  by (simp add: binary64_def)

lemma binary64_0 [simp]: "binary64 0"
  by (simp add: binary64_def)

lemma binary64_1 [simp]: "binary64 1"
  by (simp add: binary64_def)

text \<open>The angle of a time of moderate size on an orbit of at least a day is finite.\<close>

lemma computed_angle_Fin:
  assumes P: "js_mul (period b) (Fin 365.25) = Fin P" "1 \<le> P" and t: "\<bar>t\<bar> \<le> 2 ^ 1000"
  shows "computed_angle b (Fin t) =
    Fin (rd (rd (rd (t / P) * 2) * (884279719003555 / 2 ^ 48)))"
proof -
  define \<pi> :: real where "\<pi> = 884279719003555 / 2 ^ 48"
  define M :: real where "M = 2 ^ 1000"
  have pi4: "0 \<le> \<pi>" "\<pi> \<le> 4"
    by (simp_all add: \<pi>_def)
  have M: "rd M = M" "0 \<le> M" "M * 2 * 4 \<le> 2 ^ 1023" "\<bar>t\<bar> \<le> M"
    using rd_fix [of "2 ^ 1000" 1 1000] t by (simp_all add: M_def powr_realpow [symmetric])
  have P0: "P \<noteq> 0" "0 < P"
    using P(2) by simp_all
  have "\<bar>t\<bar> \<le> \<bar>t\<bar> * P"
    using P(2) by (simp add: mult_le_cancel_left1)
  then have "\<bar>t / P\<bar> \<le> \<bar>t\<bar>"
    using P0(2) by (simp add: abs_divide pos_divide_le_eq)
  then have q: "\<bar>t / P\<bar> \<le> M"
    using M(4) by linarith
  then have "\<bar>t / P\<bar> \<le> \<bar>rd M\<bar>"
    using M(1,2) by simp
  then have "\<bar>rd (t / P)\<bar> \<le> \<bar>rd M\<bar>"
    by (rule rd_abs_le_rd)
  then have rq: "\<bar>rd (t / P)\<bar> \<le> M"
    using M(1,2) by simp
  have "\<bar>t / P\<bar> \<le> 2 ^ 1023"
    using q M(2,3) by linarith
  then have "fl64 (t / P) = Fin (rd (t / P))"
    by (rule fl64_Fin_le)
  then have Q: "js_div (Fin t) (Fin P) = Fin (rd (t / P))"
    using P0(1) by simp
  have dbl: "rd (rd (t / P) * 2) = rd (t / P) * 2"
    using rd_double [of "t / P"] by (simp add: mult.commute)
  have "\<bar>rd (t / P) * 2\<bar> \<le> 2 ^ 1023"
    using rq M(2,3) by (simp add: abs_mult)
  then have "fl64 (rd (t / P) * 2) = Fin (rd (rd (t / P) * 2))"
    by (rule fl64_Fin_le)
  then have A: "js_mul (Fin (rd (t / P))) (Fin 2) = Fin (rd (rd (t / P) * 2))"
    by simp
  have "\<bar>rd (rd (t / P) * 2)\<bar> \<le> M * 2"
    using rq by (simp add: dbl abs_mult)
  then have "\<bar>rd (rd (t / P) * 2)\<bar> * \<bar>\<pi>\<bar> \<le> (M * 2) * 4"
    using pi4 M(2) by (intro mult_mono) simp_all
  then have "\<bar>rd (rd (t / P) * 2) * \<pi>\<bar> \<le> 2 ^ 1023"
    using M(3) by (simp add: abs_mult)
  then have "fl64 (rd (rd (t / P) * 2) * \<pi>) = Fin (rd (rd (rd (t / P) * 2) * \<pi>))"
    by (rule fl64_Fin_le)
  then have T: "js_mul (Fin (rd (rd (t / P) * 2))) (Fin \<pi>) = Fin (rd (rd (rd (t / P) * 2) * \<pi>))"
    by simp
  show ?thesis
    unfolding computed_angle_def Let_def Math_PI_def \<pi>_def [symmetric]
    by (simp only: P(1) Q A T)
qed

text \<open>
  C8. For every body with eccentricity \<open>0\<close> and period \<open>> 0\<close> whose distance is a normal binary64
  value of magnitude at most \<open>2 ^ 1022\<close>, and every elapsed time whose computed angle is
  finite, the returned position \<open>(x, 0, z)\<close> is finite and \<open>x^2 + z^2\<close> differs from
  \<open>distance^2\<close> by at most \<open>distance^2 / 2 ^ 48\<close>: the point lies on the circle of radius
  \<open>distance\<close> up to the rounding of the arithmetic, not exactly.
\<close>

theorem circular_orbit:
  assumes "eccentricity b = Fin 0" and "period b = Fin p" and "0 < p"
    and "distance b = Fin d" and "binary64 d" and "1 / 2 ^ 1022 \<le> \<bar>d\<bar>" and "\<bar>d\<bar> \<le> 2 ^ 1022"
    and "computed_angle b t = Fin \<theta>"
  shows "\<exists>x z. calculatePlanetPosition b t = (Fin x, Fin 0, Fin z)
     \<and> \<bar>x\<^sup>2 + z\<^sup>2 - d\<^sup>2\<bar> \<le> d\<^sup>2 / 2 ^ 48"
proof -
  let ?X = "rd (d * rd (cos \<theta>))" and ?Z = "rd (d * rd (sin \<theta>))"
  have "calculatePlanetPosition b t =
     (Fin (rd (rd (d * rd (cos \<theta>)) - rd (d * 0))), Fin 0,
      Fin (rd (rd (d * rd (sqrt (rd (1 - rd (0\<^sup>2))))) * rd (sin \<theta>))))"
    using assms by (intro position_finite) simp_all
  then have pos: "calculatePlanetPosition b t = (Fin ?X, Fin 0, Fin ?Z)"
    using binary64D(1) [OF assms(5)] by simp
  define k :: real where "k = 1 / 2 ^ 51"
  have k: "0 \<le> k" "k \<le> 1" "6 * k \<le> 1 / 2 ^ 48"
    by (simp_all add: k_def)
  have "\<bar>?X - d * cos \<theta>\<bar> \<le> \<bar>d\<bar> / 2 ^ 51"
    by (rule rd_trig_err [OF abs_cos_le_one assms(6)])
  then have X: "\<bar>?X - d * cos \<theta>\<bar> \<le> k * \<bar>d\<bar>"
    by (simp add: k_def)
  have "\<bar>?Z - d * sin \<theta>\<bar> \<le> \<bar>d\<bar> / 2 ^ 51"
    by (rule rd_trig_err [OF abs_sin_le_one assms(6)])
  then have Z: "\<bar>?Z - d * sin \<theta>\<bar> \<le> k * \<bar>d\<bar>"
    by (simp add: k_def)
  have "(cos \<theta>)\<^sup>2 + (sin \<theta>)\<^sup>2 = 1"
    by simp
  then have "\<bar>?X\<^sup>2 + ?Z\<^sup>2 - d\<^sup>2\<bar> \<le> 6 * k * d\<^sup>2"
    using X Z k(1,2) by (rule circle_perturb)
  also have "\<dots> \<le> 1 / 2 ^ 48 * d\<^sup>2"
    using k(3) by (intro mult_right_mono) simp_all
  finally have "\<bar>?X\<^sup>2 + ?Z\<^sup>2 - d\<^sup>2\<bar> \<le> d\<^sup>2 / 2 ^ 48"
    by simp
  then show ?thesis
    using pos by blast
qed

theorem circular_orbit_witness:
  "\<exists>x z. calculatePlanetPosition circular_body (Fin 50) = (Fin x, Fin 0, Fin z)
     \<and> \<bar>x\<^sup>2 + z\<^sup>2 - 20\<^sup>2\<bar> \<le> 20\<^sup>2 / 2 ^ 48"
proof -
  have P: "js_mul (period circular_body) (Fin 365.25) = Fin (1461 / 4)"
    by (simp add: circular_body_def Earth_def)
  have angle: "computed_angle circular_body (Fin 50) =
      Fin (rd (rd (rd (50 / (1461 / 4)) * 2) * (884279719003555 / 2 ^ 48)))"
    using P by (rule computed_angle_Fin) simp_all
  have body: "eccentricity circular_body = Fin 0" "period circular_body = Fin 1"
    "distance circular_body = Fin 20"
    by (simp_all add: circular_body_def Earth_def)
  have range: "(0::real) < 1" "binary64 20" "1 / 2 ^ 1022 \<le> \<bar>20::real\<bar>" "\<bar>20::real\<bar> \<le> 2 ^ 1022"
    by simp_all
  show ?thesis
    by (rule circular_orbit [OF body(1,2) range(1) body(3) range(2,3,4) angle])
qed

text \<open>
  With a period of \<open>1 / 1024\<close> year and an elapsed time of \<open>2 ^ 1023\<close> days the quotient
  overflows, the angle is infinite and the position is not a point at all.
\<close>

theorem circular_orbit_overflow:
  "eccentricity fast_body = Fin 0 \<and> period fast_body = Fin (1 / 1024)
   \<and> distance fast_body = Fin 20
   \<and> calculatePlanetPosition fast_body (Fin (2 ^ 1023)) = (NaN, Fin 0, NaN)"
proof -
  have "rd (1461 / 4096) = 1461 / 4096"
    using rd_fix [of "1461 / 4096" 1461 "- 12"] by (simp add: powr_minus_divide)
  then have P: "js_mul (Fin (1 / 1024)) (Fin 365.25) = Fin (1461 / 4096)"
    by (simp add: fl64_rd_fix)
  have "js_div (Fin (2 ^ 1023)) (Fin (1461 / 4096)) = PInf"
    by (simp add: fl64_def)
  then have "computed_angle fast_body (Fin (2 ^ 1023)) = PInf"
    using P by (simp add: computed_angle_def fast_body_def Math_PI_def)
  then show ?thesis
    by (simp add: calculatePlanetPosition_angle) (simp add: fast_body_def)
qed


text \<open>One rounding of a value below a normal magnitude \<open>M\<close> costs at most \<open>M / 2 ^ 52\<close>.\<close>

lemma rd_err_le:
  assumes x: "\<bar>x\<bar> \<le> M" and M: "1 / 2 ^ 1022 \<le> M"
  shows "\<bar>rd x - x\<bar> \<le> M / 2 ^ 52"
proof -
  have "0 \<le> M"
    using x by linarith
  then have "1 / 2 ^ 1075 \<le> M / 2 ^ 53"
    using tiny_le [of M] M by simp
  moreover have "\<bar>x\<bar> / 2 ^ 53 \<le> M / 2 ^ 53"
    using x by (intro divide_right_mono) simp_all
  moreover have "M / 2 ^ 53 + M / 2 ^ 53 = M / 2 ^ 52"
    by simp
  ultimately show ?thesis
    using rd_err [of x] by linarith
qed

lemma sqrt_diff_le:
  assumes h: "0 \<le> h" and w: "0 < w"
  shows "\<bar>sqrt h - sqrt w\<bar> \<le> \<bar>h - w\<bar> / sqrt w"
proof -
  have pos: "0 < sqrt w" "0 \<le> sqrt h"
    using h w by simp_all
  have "(sqrt h - sqrt w) * (sqrt h + sqrt w) = h - w"
    using h w by (simp add: algebra_simps)
  then have "\<bar>h - w\<bar> = \<bar>sqrt h - sqrt w\<bar> * \<bar>sqrt h + sqrt w\<bar>"
    by (simp only: abs_mult [symmetric])
  moreover have "\<bar>sqrt h + sqrt w\<bar> = sqrt h + sqrt w"
    using pos by simp
  ultimately have "\<bar>h - w\<bar> = \<bar>sqrt h - sqrt w\<bar> * (sqrt h + sqrt w)"
    by simp
  moreover have "\<bar>sqrt h - sqrt w\<bar> * sqrt w \<le> \<bar>sqrt h - sqrt w\<bar> * (sqrt h + sqrt w)"
    using pos by (intro mult_left_mono) simp_all
  ultimately have "\<bar>sqrt h - sqrt w\<bar> * sqrt w \<le> \<bar>h - w\<bar>"
    by simp
  then show ?thesis
    using pos(1) by (simp add: pos_le_divide_eq)
qed


lemma abs_prod_le:
  fixes a b A B :: real
  assumes "\<bar>a\<bar> \<le> A" "\<bar>b\<bar> \<le> B"
  shows "\<bar>a * b\<bar> \<le> A * B"
  unfolding abs_mult using assms by (intro mult_mono) simp_all

lemma abs_scale_diff:
  fixes d a b :: real
  assumes "0 \<le> d"
  shows "\<bar>d * a - d * b\<bar> = d * \<bar>a - b\<bar>"
proof -
  have "d * a - d * b = d * (a - b)"
    by (simp add: right_diff_distrib)
  then have "\<bar>d * a - d * b\<bar> = \<bar>d\<bar> * \<bar>a - b\<bar>"
    by (simp only: abs_mult)
  then show ?thesis
    using assms by simp
qed

text \<open>
  The error analysis of the returned point: each of the at most ten roundings costs at
  most \<open>2 ^ -52\<close> of the magnitude at hand; the subtraction \<open>1 - e^2\<close> under the square root
  magnifies the error of \<open>z\<close> by \<open>1 / (1 - e^2)\<close>.
\<close>

lemma ellipse_rounded:
  fixes d e \<theta> :: real
  assumes d: "1 / 2 ^ 1022 \<le> d" "rd d = d" and e: "0 \<le> e" "e\<^sup>2 \<le> 1 - 1 / 2 ^ 40"
  defines "x \<equiv> rd (rd (d * rd (cos \<theta>)) - rd (d * e))"
    and "z \<equiv> rd (rd (d * rd (sqrt (rd (1 - rd (e\<^sup>2))))) * rd (sin \<theta>))"
  shows "\<bar>((x + d * e) / d)\<^sup>2 + (z / (d * sqrt (1 - e\<^sup>2)))\<^sup>2 - 1\<bar> \<le> 1 / (2 ^ 46 * (1 - e\<^sup>2))"
    and "\<bar>x\<bar> \<le> d * (1 + e) * (1 + 1 / 2 ^ 50)"
    and "\<bar>z\<bar> \<le> d"
proof -
  define v :: real where "v = 1 / 2 ^ 52"
  define w where "w = 1 - e\<^sup>2"
  define r where "r = sqrt w"
  define c where "c = cos \<theta>"
  define s where "s = sin \<theta>"
  define C where "C = rd c"
  define S where "S = rd s"
  define Y where "Y = rd (d * C)"
  define F where "F = rd (d * e)"
  define g where "g = rd (e\<^sup>2)"
  define h where "h = rd (1 - g)"
  define q where "q = rd (sqrt h)"
  define B where "B = rd (d * q)"
  have x: "x = rd (Y - F)" and z: "z = rd (B * S)"
    by (simp_all add: x_def z_def Y_def F_def C_def S_def c_def s_def B_def q_def h_def g_def)
  have one: "(1::real) / 2 ^ 1022 \<le> 1"
    by simp
  have d0: "0 < d"
    using d(1) by (rule less_le_trans [rotated]) simp
  have v: "0 < v" "v \<le> 1" "4 * v = 1 / 2 ^ 50" "64 * v = 1 / 2 ^ 46" "6 * v \<le> 1 / 2 ^ 40"
    by (simp_all add: v_def)
  have w: "1 / 2 ^ 40 \<le> w" "w \<le> 1" "0 < w"
    using e(2) by (simp_all add: w_def)
  have r: "0 < r" "r \<le> 1" "r * r = w"
    using w by (simp_all add: r_def)
  have e1: "\<bar>e\<bar> \<le> 1"
  proof -
    have "e\<^sup>2 \<le> 1"
      using w(3) by (simp add: w_def)
    then show ?thesis
      by (simp add: abs_square_le_1)
  qed
  have rv: "\<bar>rd y - y\<bar> \<le> M * v" if "\<bar>y\<bar> \<le> M" "1 / 2 ^ 1022 \<le> M" for y M
    using rd_err_le [OF that] by (simp add: v_def)
  have c1: "\<bar>c\<bar> \<le> 1" and s1: "\<bar>s\<bar> \<le> 1"
    by (simp_all add: c_def s_def)
  have Cc: "\<bar>C - c\<bar> \<le> v" and Ss: "\<bar>S - s\<bar> \<le> v"
    using rv [OF c1 one] rv [OF s1 one] by (simp_all add: C_def S_def)
  have C1: "\<bar>C\<bar> \<le> 1" and S1: "\<bar>S\<bar> \<le> 1"
    using c1 s1 by (simp_all add: C_def S_def rd_abs_le_1)
  define dv where "dv = d * v"
  have dv: "0 \<le> dv" "2 * d * v = 2 * dv"
    using d0 v(1) by (simp_all add: dv_def)
  have dC: "\<bar>d * C\<bar> \<le> d" and de: "\<bar>d * e\<bar> \<le> d"
    using mult_le_abs [OF C1, of d] mult_le_abs [OF e1, of d] d0 by simp_all
  have YdC: "\<bar>Y - d * C\<bar> \<le> dv" and Fde: "\<bar>F - d * e\<bar> \<le> dv"
    using rv [OF dC d(1)] rv [OF de d(1)] by (simp_all add: Y_def F_def dv_def)
  have Y1: "\<bar>Y\<bar> \<le> d" and F1: "\<bar>F\<bar> \<le> d"
    using rd_mult_le [OF d(2) C1] rd_mult_le [OF d(2) e1] d0 by (simp_all add: Y_def F_def)
  have YF: "\<bar>Y - F\<bar> \<le> 2 * d"
    using Y1 F1 by linarith
  have "1 / 2 ^ 1022 \<le> 2 * d"
    using d(1) d0 by linarith
  from rv [OF YF this] have xYF: "\<bar>x - (Y - F)\<bar> \<le> 2 * dv"
    by (simp add: x dv_def)
  have dCc: "\<bar>d * C - d * c\<bar> \<le> dv"
  proof -
    have "\<bar>d * C - d * c\<bar> = d * \<bar>C - c\<bar>"
      using d0 by (intro abs_scale_diff) simp
    also have "\<dots> \<le> d * v"
      using Cc d0 by (intro mult_left_mono) simp_all
    finally show ?thesis by (simp add: dv_def)
  qed
  have num1: "\<bar>x + d * e - d * c\<bar> \<le> 5 * dv"
    using xYF YdC dCc Fde by linarith
  define \<delta>1 where "\<delta>1 = (x + d * e) / d - c"
  have d1: "\<bar>\<delta>1\<bar> \<le> 5 * v"
  proof -
    have "(x + d * e - d * c) / d = (x + d * e) / d - d * c / d"
      by (rule diff_divide_distrib)
    also have "d * c / d = c"
      using d0 by simp
    finally have "\<delta>1 = (x + d * e - d * c) / d"
      by (simp add: \<delta>1_def)
    then have "\<bar>\<delta>1\<bar> = \<bar>x + d * e - d * c\<bar> / d"
      using d0 by (simp add: abs_divide)
    also have "\<dots> \<le> 5 * dv / d"
      using num1 d0 by (intro divide_right_mono) simp_all
    also have "\<dots> = 5 * v"
      using d0 by (simp add: dv_def)
    finally show ?thesis .
  qed
  have xb: "\<bar>x\<bar> \<le> d * (1 + e) * (1 + 1 / 2 ^ 50)"
  proof -
    have "0 \<le> d * e"
      using e(1) d0 by simp
    then have "\<bar>F\<bar> \<le> d * e + dv"
      using Fde by linarith
    then have "\<bar>x\<bar> \<le> d + d * e + 3 * dv"
      using xYF Y1 by linarith
    moreover have "dv \<le> d * (1 + e) * v"
    proof -
      have "d * 1 \<le> d * (1 + e)"
        using e(1) d0 by (intro mult_left_mono) simp_all
      then have "d * 1 * v \<le> d * (1 + e) * v"
        using v(1) by (intro mult_right_mono) simp_all
      then show ?thesis by (simp add: dv_def)
    qed
    moreover have "d + d * e = d * (1 + e)"
      by (simp add: algebra_simps)
    ultimately have "\<bar>x\<bar> \<le> d * (1 + e) + 4 * (d * (1 + e) * v)"
      using dv(1) by linarith
    also have "\<dots> = d * (1 + e) * (1 + 4 * v)"
      by (simp add: algebra_simps)
    finally show ?thesis
      by (simp only: v(3))
  qed
  have e2: "0 \<le> e\<^sup>2" "\<bar>e\<^sup>2\<bar> \<le> 1"
    using w(3) by (simp_all add: w_def)
  have g: "0 \<le> g" "g \<le> 1" "\<bar>g - e\<^sup>2\<bar> \<le> v"
    using rd_nonneg [OF e2(1)] rd_abs_le_1 [OF e2(2)] rv [OF e2(2) one]
    by (simp_all add: g_def)
  have g1: "0 \<le> 1 - g" "\<bar>1 - g\<bar> \<le> 1"
    using g by simp_all
  have h: "0 \<le> h" "h \<le> 1" "\<bar>h - (1 - g)\<bar> \<le> v"
    using rd_nonneg [OF g1(1)] rd_abs_le_1 [OF g1(2)] rv [OF g1(2) one]
    by (simp_all add: h_def)
  have hw: "\<bar>h - w\<bar> \<le> 2 * v"
    using h(3) g(3) unfolding w_def by linarith
  define vr where "vr = v / r"
  have vr: "0 \<le> vr" "v \<le> vr" "vr * r = v"
    using r v(1) by (simp_all add: vr_def pos_le_divide_eq mult_left_le)
  have sh: "\<bar>sqrt h - r\<bar> \<le> 2 * vr"
  proof -
    have "\<bar>sqrt h - sqrt w\<bar> \<le> \<bar>h - w\<bar> / sqrt w"
      using h(1) w(3) by (rule sqrt_diff_le)
    also have "\<dots> \<le> 2 * v / sqrt w"
      using hw r(1) by (intro divide_right_mono) (simp_all add: r_def)
    finally show ?thesis
      by (simp add: r_def vr_def)
  qed
  have sq1: "\<bar>sqrt h\<bar> \<le> 1"
    using h by simp
  have q: "\<bar>q\<bar> \<le> 1" "\<bar>q - sqrt h\<bar> \<le> v"
    using rd_abs_le_1 [OF sq1] rv [OF sq1 one] by (simp_all add: q_def)
  have qr: "\<bar>q - r\<bar> \<le> 3 * vr"
    using q(2) sh vr(2) by linarith
  define dvr where "dvr = d * vr"
  have dvr: "0 \<le> dvr" "dv \<le> dvr" "dvr * r = dv"
    using vr d0 by (simp_all add: dvr_def dv_def mult_left_mono)
  have dq: "\<bar>d * q\<bar> \<le> d"
    using mult_le_abs [OF q(1), of d] d0 by simp
  have B1: "\<bar>B\<bar> \<le> d" and Bdq: "\<bar>B - d * q\<bar> \<le> dv"
    using rd_mult_le [OF d(2) q(1)] d0 rv [OF dq d(1)] by (simp_all add: B_def dv_def)
  have dqr: "\<bar>d * q - d * r\<bar> \<le> 3 * dvr"
  proof -
    have "\<bar>d * q - d * r\<bar> = d * \<bar>q - r\<bar>"
      using d0 by (intro abs_scale_diff) simp
    also have "\<dots> \<le> d * (3 * vr)"
      using qr d0 by (intro mult_left_mono) simp_all
    finally show ?thesis by (simp add: dvr_def)
  qed
  have Bdr: "\<bar>B - d * r\<bar> \<le> 4 * dvr"
    using Bdq dqr dvr(2) by linarith
  have BS: "\<bar>B * S\<bar> \<le> d"
    using abs_prod_le [OF B1 S1] by simp
  have zBS: "\<bar>z - B * S\<bar> \<le> dv"
    using rv [OF BS d(1)] by (simp add: z dv_def)
  have zb: "\<bar>z\<bar> \<le> d"
  proof -
    have "\<bar>B * S\<bar> \<le> \<bar>rd d\<bar>"
      using BS d(2) d0 by simp
    then have "\<bar>rd (B * S)\<bar> \<le> \<bar>rd d\<bar>"
      by (rule rd_abs_le_rd)
    then show ?thesis
      using d(2) d0 by (simp add: z)
  qed
  have t1: "\<bar>(B - d * r) * S\<bar> \<le> 4 * dvr"
    using abs_prod_le [OF Bdr S1] by simp
  have t2: "\<bar>d * r * (S - s)\<bar> \<le> dv"
  proof -
    have "\<bar>d * r\<bar> \<le> d"
      using mult_le_abs [of r d] r d0 by simp
    then have "\<bar>d * r * (S - s)\<bar> \<le> d * v"
      using Ss by (rule abs_prod_le)
    then show ?thesis by (simp add: dv_def)
  qed
  have "z - d * r * s = (z - B * S) + (B - d * r) * S + d * r * (S - s)"
    by (simp add: algebra_simps)
  then have num2: "\<bar>z - d * r * s\<bar> \<le> 6 * dvr"
    using zBS t1 t2 dvr(2) by linarith
  define \<delta>2 where "\<delta>2 = z / (d * r) - s"
  define K where "K = 6 * v / w"
  have d2: "\<bar>\<delta>2\<bar> \<le> K"
  proof -
    have dr: "0 < d * r"
      using d0 r(1) by simp
    have "(z - d * r * s) / (d * r) = z / (d * r) - d * r * s / (d * r)"
      by (rule diff_divide_distrib)
    also have "d * r * s / (d * r) = s"
      using d0 r(1) by simp
    finally have "\<delta>2 = (z - d * r * s) / (d * r)"
      by (simp add: \<delta>2_def)
    then have "\<bar>\<delta>2\<bar> = \<bar>z - d * r * s\<bar> / (d * r)"
      using dr by (simp add: abs_divide)
    also have "\<dots> \<le> 6 * dvr / (d * r)"
      using num2 dr by (intro divide_right_mono) simp_all
    also have "\<dots> = 6 * vr / r"
      using d0 by (simp add: dvr_def)
    also have "\<dots> = 6 * v / (r * r)"
      by (simp add: vr_def)
    finally show ?thesis
      by (simp add: K_def r(3))
  qed
  have K: "0 \<le> K" "K \<le> 1" "5 * v \<le> K" "6 * K \<le> 1 / (2 ^ 46 * w)"
  proof -
    show "0 \<le> K"
      using v(1) w(3) by (simp add: K_def)
    have "6 * v \<le> 1 * w"
      using v(5) w(1) by linarith
    then show "K \<le> 1"
      using w(3) by (simp add: K_def pos_divide_le_eq)
    have "5 * v * w \<le> 6 * v * 1"
      using v(1) w(2,3) by (intro mult_mono) simp_all
    then show "5 * v \<le> K"
      using w(3) by (simp add: K_def pos_le_divide_eq)
    have "6 * K = 36 * v / w"
      by (simp add: K_def)
    also have "\<dots> \<le> 64 * v / w"
      using v(1) w(3) by (intro divide_right_mono) simp_all
    also have "\<dots> = 1 / (2 ^ 46 * w)"
      by (simp only: v(4)) simp
    finally show "6 * K \<le> 1 / (2 ^ 46 * w)" .
  qed
  have X: "\<bar>(x + d * e) / d - 1 * c\<bar> \<le> K * \<bar>1::real\<bar>"
    using d1 K(3) by (simp add: \<delta>1_def)
  have Z: "\<bar>z / (d * r) - 1 * s\<bar> \<le> K * \<bar>1::real\<bar>"
    using d2 by (simp add: \<delta>2_def)
  have "c\<^sup>2 + s\<^sup>2 = 1"
    by (simp add: c_def s_def)
  then have "\<bar>((x + d * e) / d)\<^sup>2 + (z / (d * r))\<^sup>2 - 1\<^sup>2\<bar> \<le> 6 * K * 1\<^sup>2"
    using X Z K(1,2) by (rule circle_perturb)
  then have "\<bar>((x + d * e) / d)\<^sup>2 + (z / (d * r))\<^sup>2 - 1\<bar> \<le> 1 / (2 ^ 46 * w)"
    using K(4) by simp
  then show "\<bar>((x + d * e) / d)\<^sup>2 + (z / (d * sqrt (1 - e\<^sup>2)))\<^sup>2 - 1\<bar> \<le> 1 / (2 ^ 46 * (1 - e\<^sup>2))"
    by (simp only: r_def w_def)
  show "\<bar>x\<bar> \<le> d * (1 + e) * (1 + 1 / 2 ^ 50)"
    by (rule xb)
  show "\<bar>z\<bar> \<le> d"
    by (rule zb)
qed


text \<open>
  C9. The \<open>y\<close> coordinate is exactly \<open>0\<close> for every input, NaN and the infinities included.
  For every body whose distance \<open>d > 0\<close> is a normal binary64 value of at most \<open>2 ^ 1022\<close>, with
  period \<open>> 0\<close> and eccentricity \<open>e\<close> with \<open>0 \<le> e\<close> and \<open>e^2 \<le> 1 - 2^-40\<close>, and every elapsed
  time whose computed angle is finite, the returned point \<open>(x, 0, z)\<close> is finite and
  satisfies the equation of the ellipse with \<open>a = d\<close>, \<open>b = d * sqrt (1 - e^2)\<close>, \<open>f = d * e\<close> up
  to rounding, \<open>|((x + f) / a)^2 + (z / b)^2 - 1| \<le> 1 / (2^46 * (1 - e^2))\<close>, with
  \<open>|x| \<le> d * (1 + e) * (1 + 2^-50)\<close> and \<open>|z| \<le> d\<close>. The equation does not hold exactly, and
  without the finite angle the result is not a point.
\<close>

theorem on_ellipse:
  "fst (snd (calculatePlanetPosition b' t')) = Fin 0
   \<and> (distance b = Fin d \<and> period b = Fin p \<and> eccentricity b = Fin e
        \<and> binary64 d \<and> 1 / 2 ^ 1022 \<le> d \<and> d \<le> 2 ^ 1022 \<and> 0 < p
        \<and> 0 \<le> e \<and> e\<^sup>2 \<le> 1 - 1 / 2 ^ 40 \<and> computed_angle b t = Fin \<theta> \<longrightarrow>
      (\<exists>x z. calculatePlanetPosition b t = (Fin x, Fin 0, Fin z)
         \<and> \<bar>((x + d * e) / d)\<^sup>2 + (z / (d * sqrt (1 - e\<^sup>2)))\<^sup>2 - 1\<bar> \<le> 1 / (2 ^ 46 * (1 - e\<^sup>2))
         \<and> \<bar>x\<bar> \<le> d * (1 + e) * (1 + 1 / 2 ^ 50) \<and> \<bar>z\<bar> \<le> d))"
proof -
  have y0: "fst (snd (calculatePlanetPosition b' t')) = Fin 0"
    by (simp add: calculatePlanetPosition_def Let_def)
  have ell: "\<exists>x z. calculatePlanetPosition b t = (Fin x, Fin 0, Fin z)
         \<and> \<bar>((x + d * e) / d)\<^sup>2 + (z / (d * sqrt (1 - e\<^sup>2)))\<^sup>2 - 1\<bar> \<le> 1 / (2 ^ 46 * (1 - e\<^sup>2))
         \<and> \<bar>x\<bar> \<le> d * (1 + e) * (1 + 1 / 2 ^ 50) \<and> \<bar>z\<bar> \<le> d"
    if b: "distance b = Fin d" "eccentricity b = Fin e" "computed_angle b t = Fin \<theta>"
      and d: "binary64 d" "1 / 2 ^ 1022 \<le> d" "d \<le> 2 ^ 1022"
      and e: "0 \<le> e" "e\<^sup>2 \<le> 1 - 1 / 2 ^ 40"
  proof -
    have "0 \<le> d"
      using d(2) by (rule order_trans [rotated]) simp
    then have dabs: "\<bar>d\<bar> \<le> 2 ^ 1022"
      using d(3) by simp
    have "e\<^sup>2 \<le> 1"
      using e(2) by (rule order_trans) simp
    then have e1: "\<bar>e\<bar> \<le> 1"
      by (simp add: abs_square_le_1)
    note pos = position_finite [OF b(1) d(1) dabs b(2) e1 b(3)]
    note err = ellipse_rounded [OF d(2) binary64D(1) [OF d(1)] e, of \<theta>]
    show ?thesis
      using pos err by blast
  qed
  show ?thesis
    using y0 ell by blast
qed

theorem on_ellipse_witness:
  "fst (snd (calculatePlanetPosition Pluto NaN)) = Fin 0
   \<and> (\<exists>x z. calculatePlanetPosition Pluto (Fin 45291) = (Fin x, Fin 0, Fin z)
         \<and> \<bar>((x + 95 * rd 0.248) / 95)\<^sup>2 + (z / (95 * sqrt (1 - (rd 0.248)\<^sup>2)))\<^sup>2 - 1\<bar>
             \<le> 1 / (2 ^ 46 * (1 - (rd 0.248)\<^sup>2))
         \<and> \<bar>x\<bar> \<le> 95 * (1 + rd 0.248) * (1 + 1 / 2 ^ 50) \<and> \<bar>z\<bar> \<le> 95)"
proof -
  have half: "rd (1 / 2) = 1 / 2"
    using rd_fix [of "1 / 2" 1 "- 1"] by (simp add: powr_minus_divide)
  have "\<bar>0.248 :: real\<bar> \<le> \<bar>rd (1 / 2)\<bar>"
    by (simp add: half)
  then have "\<bar>rd 0.248\<bar> \<le> \<bar>rd (1 / 2)\<bar>"
    by (rule rd_abs_le_rd)
  then have small: "\<bar>rd 0.248\<bar> \<le> 1 / 2"
    by (simp add: half)
  have e0: "0 \<le> rd 0.248"
    by (rule rd_nonneg) simp
  have "(rd 0.248)\<^sup>2 \<le> (1 / 2)\<^sup>2"
    using small e0 by (intro power_mono) simp_all
  then have e2: "(rd 0.248)\<^sup>2 \<le> 1 - 1 / 2 ^ 40"
    by (rule order_trans) (simp add: power2_eq_square)
  have ecc: "eccentricity Pluto = Fin (rd 0.248)"
    by (simp add: Pluto_def fl64_Fin_le)
  have P: "js_mul (period Pluto) (Fin 365.25) = Fin 90582"
    by (simp add: Pluto_def)
  have angle: "computed_angle Pluto (Fin 45291) =
      Fin (rd (rd (rd (45291 / 90582) * 2) * (884279719003555 / 2 ^ 48)))"
    using P by (rule computed_angle_Fin) simp_all
  have hyps: "distance Pluto = Fin 95 \<and> period Pluto = Fin 248 \<and> binary64 95
      \<and> 1 / 2 ^ 1022 \<le> (95::real) \<and> (95::real) \<le> 2 ^ 1022 \<and> (0::real) < 248"
    by (simp add: Pluto_def)
  show ?thesis
    using hyps ecc e0 e2 angle
      on_ellipse [where b' = Pluto and t' = NaN and b = Pluto and d = 95 and p = 248
        and e = "rd 0.248" and t = "Fin 45291"]
    by blast
qed

text \<open>
  The same overflow with eccentricity \<open>1 / 4\<close>: the angle is infinite and the \<open>x\<close> and \<open>z\<close>
  coordinates are NaN.
\<close>

theorem on_ellipse_overflow:
  "distance eccentric_fast_body = Fin 20 \<and> period eccentric_fast_body = Fin (1 / 1024)
   \<and> eccentricity eccentric_fast_body = Fin (1 / 4)
   \<and> calculatePlanetPosition eccentric_fast_body (Fin (2 ^ 1023)) = (NaN, Fin 0, NaN)"
proof -
  have "rd (1461 / 4096) = 1461 / 4096"
    using rd_fix [of "1461 / 4096" 1461 "- 12"] by (simp add: powr_minus_divide)
  then have P: "js_mul (Fin (1 / 1024)) (Fin 365.25) = Fin (1461 / 4096)"
    by (simp add: fl64_rd_fix)
  have "js_div (Fin (2 ^ 1023)) (Fin (1461 / 4096)) = PInf"
    by (simp add: fl64_def)
  then have "computed_angle eccentric_fast_body (Fin (2 ^ 1023)) = PInf"
    using P by (simp add: computed_angle_def eccentric_fast_body_def fast_body_def Math_PI_def)
  then show ?thesis
    by (simp add: calculatePlanetPosition_angle) (simp add: eccentric_fast_body_def fast_body_def)
qed


section \<open>Properties of the clock\<close>

lemma animate_isPlaying [simp]: "isPlaying (animate s t) = isPlaying s"
  by (simp add: animate_def Let_def split: option.splits)

lemma animate_speed [simp]: "speed (animate s t) = speed s"
  by (simp add: animate_def Let_def split: option.splits)

lemma animate_previousTimeRef [simp]: "previousTimeRef (animate s t) = Some t"
  by (simp add: animate_def Let_def split: option.splits)

lemma animate_first: "previousTimeRef s = None \<Longrightarrow> animate s t = s\<lparr>previousTimeRef := Some t\<rparr>"
  by (simp add: animate_def)

lemma animate_paused: "\<not> isPlaying s \<Longrightarrow> daysElapsed (animate s t) = daysElapsed s"
  by (simp add: animate_def Let_def split: option.splits)

lemma animate_playing:
  "previousTimeRef s = Some previous \<Longrightarrow> isPlaying s \<Longrightarrow>
   daysElapsed (animate s t) =
     (if isNaN (daysElapsed s) then Fin 0
      else js_add (daysElapsed s)
             (js_mul (speed s) (js_div (Math_min (js_sub t previous) (Fin 100)) (Fin 16))))"
  by (simp add: animate_def Let_def)

lemma animate_heals:
  "isPlaying s \<Longrightarrow> previousTimeRef s = Some previous \<Longrightarrow> isNaN (daysElapsed s) \<Longrightarrow>
   daysElapsed (animate s t) = Fin 0"
  by (simp add: animate_playing)

lemma animate_heals_only:
  assumes "isNaN (daysElapsed s)" and "\<not> isNaN (daysElapsed (animate s t))"
  shows "isPlaying s \<and> previousTimeRef s \<noteq> None \<and> daysElapsed (animate s t) = Fin 0"
proof (cases "isPlaying s")
  case False
  with assms show ?thesis by (simp add: animate_paused)
next
  case True
  show ?thesis
  proof (cases "previousTimeRef s")
    case None
    with assms show ?thesis by (simp add: animate_first)
  next
    case (Some previous)
    with True assms(1) show ?thesis by (simp add: animate_heals)
  qed
qed

lemma animate_all_isPlaying [simp]: "isPlaying (animate_all s ts) = isPlaying s"
  by (induction ts arbitrary: s) simp_all

lemma animate_all_speed [simp]: "speed (animate_all s ts) = speed s"
  by (induction ts arbitrary: s) simp_all

lemma animate_all_paused: "\<not> isPlaying s \<Longrightarrow> daysElapsed (animate_all s ts) = daysElapsed s"
  by (induction ts arbitrary: s) (simp_all add: animate_paused)

lemma animate_all_previousTimeRef:
  "ts \<noteq> [] \<Longrightarrow> previousTimeRef (animate_all s ts) = Some (last ts)"
  by (induction ts arbitrary: s) auto

lemma scrub_fields [simp]:
  "daysElapsed (scrub s v) = v" "isPlaying (scrub s v) = isPlaying s"
  "speed (scrub s v) = speed s" "previousTimeRef (scrub s v) = previousTimeRef s"
  by (simp_all add: scrub_def)

lemma togglePlaying_fields [simp]:
  "daysElapsed (togglePlaying s) = daysElapsed s" "isPlaying (togglePlaying s) = (\<not> isPlaying s)"
  "speed (togglePlaying s) = speed s" "previousTimeRef (togglePlaying s) = previousTimeRef s"
  by (simp_all add: togglePlaying_def)

lemma setSpeed_fields [simp]:
  "daysElapsed (setSpeed s v) = daysElapsed s" "isPlaying (setSpeed s v) = isPlaying s"
  "speed (setSpeed s v) = v" "previousTimeRef (setSpeed s v) = previousTimeRef s"
  by (simp_all add: setSpeed_def)

lemma exposedDaysElapsed_not_NaN: "exposedDaysElapsed s \<noteq> NaN"
  by (simp add: exposedDaysElapsed_def isNaN_iff)

lemma safeDays_not_NaN: "safeDays s \<noteq> NaN"
  by (simp add: safeDays_def isNaN_iff Math_floor_NaN_iff)

lemma exposedDaysElapsed_stored:
  "\<not> isNaN (daysElapsed s) \<Longrightarrow> exposedDaysElapsed s = daysElapsed s"
  by (simp add: exposedDaysElapsed_def)

text \<open>
  The tick that heals a \<open>NaN\<close> accumulator leaves the clock in the state of a clock that was
  scrubbed to \<open>0\<close>.
\<close>

lemma animate_scrub_NaN:
  assumes "isPlaying s" "previousTimeRef s = Some previous"
  shows "animate (scrub s NaN) t = (scrub s (Fin 0))\<lparr>previousTimeRef := Some t\<rparr>"
  using assms by (simp add: animate_def scrub_def Let_def)

section \<open>The clock: claims\<close>

text \<open>
  C2. The tick of the clock, given the current timestamp: the very first tick only
  records the timestamp and leaves the elapsed days as they are; every later tick taken
  while playing with an elapsed-days value that is not \<open>NaN\<close> adds exactly
  \<open>speed * (min (current - previous, 100) / 16)\<close> to it, every operation being the one of the
  language; and every tick records the current timestamp as the previous one for the next
  tick.
\<close>

theorem clock_tick:
  "(previousTimeRef s = None \<longrightarrow> animate s t = s\<lparr>previousTimeRef := Some t\<rparr>)
   \<and> (previousTimeRef s = Some previous \<and> isPlaying s \<and> \<not> isNaN (daysElapsed s) \<longrightarrow>
        daysElapsed (animate s t) =
          js_add (daysElapsed s)
            (js_mul (speed s) (js_div (Math_min (js_sub t previous) (Fin 100)) (Fin 16))))
   \<and> previousTimeRef (animate s t) = Some t"
  by (simp add: animate_first animate_playing)

theorem clock_tick_witness:
  "animate initialState (Fin 1000) = initialState\<lparr>previousTimeRef := Some (Fin 1000)\<rparr>
   \<and> daysElapsed (animate (animate initialState (Fin 1000)) (Fin 1032)) = Fin 2
   \<and> previousTimeRef (animate (animate initialState (Fin 1000)) (Fin 1032)) = Some (Fin 1032)"
  using clock_tick [of initialState "Fin 1000"]
    clock_tick [where s = "animate initialState (Fin 1000)" and previous = "Fin 1000"
      and t = "Fin 1032"]
  by (simp add: initialState_def)

text \<open>
  C3. The elapsed-days value handed to consumers is never \<open>NaN\<close>; it is the stored value
  whenever that is a number. After a scrub with \<open>NaN\<close> it is \<open>0\<close>, whether the clock is playing
  or paused. While paused it stays \<open>0\<close> through every tick. While playing, the next tick
  leaves the clock in the very state of a clock scrubbed to \<open>0\<close>, so the exposed value is \<open>0\<close>
  after that tick and from then on is, tick for tick, the exposed value of a clock that
  was scrubbed to \<open>0\<close>: after the following tick it is the increment of that tick.
\<close>

theorem scrub_NaN_exposed:
  "exposedDaysElapsed s \<noteq> NaN \<and> safeDays s \<noteq> NaN
   \<and> (\<not> isNaN (daysElapsed s) \<longrightarrow> exposedDaysElapsed s = daysElapsed s)
   \<and> exposedDaysElapsed (scrub s NaN) = Fin 0
   \<and> exposedDaysElapsed (animate_all (scrub s NaN) ts) \<noteq> NaN
   \<and> (\<not> isPlaying s \<longrightarrow> exposedDaysElapsed (animate_all (scrub s NaN) ts) = Fin 0)
   \<and> (isPlaying s \<and> previousTimeRef s = Some previous \<longrightarrow>
        animate (scrub s NaN) t = (scrub s (Fin 0))\<lparr>previousTimeRef := Some t\<rparr>
        \<and> exposedDaysElapsed (animate (scrub s NaN) t) = Fin 0
        \<and> exposedDaysElapsed (animate_all (animate (scrub s NaN) t) ts) =
            exposedDaysElapsed (animate_all ((scrub s (Fin 0))\<lparr>previousTimeRef := Some t\<rparr>) ts)
        \<and> exposedDaysElapsed (animate (animate (scrub s NaN) t) t') =
            (let w = js_add (Fin 0)
                       (js_mul (speed s) (js_div (Math_min (js_sub t' t) (Fin 100)) (Fin 16)))
             in if isNaN w then Fin 0 else w))"
proof -
  have scrubbed: "exposedDaysElapsed (scrub s NaN) = Fin 0"
    by (simp add: exposedDaysElapsed_def)
  have paused: "exposedDaysElapsed (animate_all (scrub s NaN) ts) = Fin 0" if "\<not> isPlaying s"
    using that by (simp add: exposedDaysElapsed_def animate_all_paused)
  have heal: "animate (scrub s NaN) t = (scrub s (Fin 0))\<lparr>previousTimeRef := Some t\<rparr>"
    if "isPlaying s" "previousTimeRef s = Some previous"
    using that by (rule animate_scrub_NaN)
  have healed: "exposedDaysElapsed (animate (scrub s NaN) t) = Fin 0"
    if "isPlaying s" "previousTimeRef s = Some previous"
    by (simp add: heal [OF that] exposedDaysElapsed_def)
  have later: "exposedDaysElapsed (animate_all (animate (scrub s NaN) t) ts) =
      exposedDaysElapsed (animate_all ((scrub s (Fin 0))\<lparr>previousTimeRef := Some t\<rparr>) ts)"
    if "isPlaying s" "previousTimeRef s = Some previous"
    by (simp only: heal [OF that])
  have next_tick: "exposedDaysElapsed (animate (animate (scrub s NaN) t) t') =
      (let w = js_add (Fin 0)
                 (js_mul (speed s) (js_div (Math_min (js_sub t' t) (Fin 100)) (Fin 16)))
       in if isNaN w then Fin 0 else w)"
    if "isPlaying s" "previousTimeRef s = Some previous"
    using that
    by (simp add: heal [OF that] exposedDaysElapsed_def Let_def animate_playing [where previous = t])
  show ?thesis
    using scrubbed paused heal healed later next_tick
      exposedDaysElapsed_not_NaN [of s] safeDays_not_NaN [of s]
      exposedDaysElapsed_stored [of s]
      exposedDaysElapsed_not_NaN [of "animate_all (scrub s NaN) ts"]
    by blast
qed

theorem scrub_NaN_exposed_witness:
  "exposedDaysElapsed playing_state = Fin 7
   \<and> exposedDaysElapsed (scrub playing_state NaN) = Fin 0
   \<and> exposedDaysElapsed (scrub (handleReset playing_state) NaN) = Fin 0
   \<and> exposedDaysElapsed (animate_all (scrub (handleReset playing_state) NaN) [Fin 516, Fin 532]) = Fin 0
   \<and> exposedDaysElapsed (animate (scrub playing_state NaN) (Fin 516)) = Fin 0
   \<and> exposedDaysElapsed (animate (animate (scrub playing_state NaN) (Fin 516)) (Fin 532)) = Fin 2"
proof -
  note playing = scrub_NaN_exposed [where s = playing_state and ts = "[]" and previous = "Fin 500"
      and t = "Fin 516" and t' = "Fin 532"]
  note paused = scrub_NaN_exposed [where s = "handleReset playing_state"
      and ts = "[Fin 516, Fin 532]"]
  have hyps: "isPlaying playing_state \<and> previousTimeRef playing_state = Some (Fin 500)
      \<and> \<not> isNaN (daysElapsed playing_state) \<and> \<not> isPlaying (handleReset playing_state)"
    by (simp add: playing_state_def handleReset_def)
  have stored: "daysElapsed playing_state = Fin 7"
    by (simp add: playing_state_def)
  have increment: "(let w = js_add (Fin 0)
        (js_mul (speed playing_state) (js_div (Math_min (js_sub (Fin 532) (Fin 516)) (Fin 100)) (Fin 16)))
      in if isNaN w then Fin 0 else w) = Fin 2"
    by (simp add: playing_state_def)
  have "exposedDaysElapsed playing_state = daysElapsed playing_state"
    using playing hyps by blast
  then have c1: "exposedDaysElapsed playing_state = Fin 7"
    by (simp only: stored)
  have c2: "exposedDaysElapsed (scrub playing_state NaN) = Fin 0"
    using playing by blast
  have c3: "exposedDaysElapsed (scrub (handleReset playing_state) NaN) = Fin 0"
    using paused by blast
  have c4: "exposedDaysElapsed
      (animate_all (scrub (handleReset playing_state) NaN) [Fin 516, Fin 532]) = Fin 0"
    using paused hyps by blast
  have c5: "exposedDaysElapsed (animate (scrub playing_state NaN) (Fin 516)) = Fin 0"
    using playing hyps by blast
  have "exposedDaysElapsed (animate (animate (scrub playing_state NaN) (Fin 516)) (Fin 532)) =
      (let w = js_add (Fin 0)
        (js_mul (speed playing_state) (js_div (Math_min (js_sub (Fin 532) (Fin 516)) (Fin 100)) (Fin 16)))
      in if isNaN w then Fin 0 else w)"
    using playing hyps by blast
  then have c6: "exposedDaysElapsed (animate (animate (scrub playing_state NaN) (Fin 516)) (Fin 532))
      = Fin 2"
    by (simp only: increment)
  show ?thesis
    using c1 c2 c3 c4 c5 c6 by blast
qed

text \<open>
  C4. For every clock state, reset sets the elapsed days to \<open>0\<close> and \<open>isPlaying\<close> to false and
  changes nothing else: the speed multiplier (and the recorded timestamp) keep their
  values. From the starting state the result is exactly \<open>{0, false, 1}\<close>.
\<close>

theorem reset_frame:
  "handleReset s =
     \<lparr>daysElapsed = Fin 0, isPlaying = False, speed = speed s,
      previousTimeRef = previousTimeRef s\<rparr>
   \<and> speed (handleReset s) = speed s
   \<and> handleReset initialState =
       \<lparr>daysElapsed = Fin 0, isPlaying = False, speed = Fin 1, previousTimeRef = None\<rparr>"
  by (simp add: handleReset_def initialState_def)

text \<open>
  C5. Whenever \<open>isPlaying\<close> is false, any sequence of ticks, whatever its timestamps (the
  increasing ones among them), leaves the elapsed days unchanged: a paused clock never
  advances simulation time.
\<close>

theorem paused_ticks:
  "\<not> isPlaying s \<Longrightarrow> daysElapsed (animate_all s ts) = daysElapsed s"
  by (rule animate_all_paused)

theorem paused_ticks_witness:
  "\<not> isPlaying (scrub (handleReset initialState) (Fin 42)) \<and>
   daysElapsed (animate_all (scrub (handleReset initialState) (Fin 42)) [Fin 0, Fin 16, Fin 5000])
     = Fin 42"
  using paused_ticks [of "scrub (handleReset initialState) (Fin 42)" "[Fin 0, Fin 16, Fin 5000]"]
  by (simp add: scrub_def handleReset_def initialState_def)

text \<open>
  C6. While playing at speed \<open>1\<close> with an accumulator that is not \<open>NaN\<close>, a tick (not the
  first) whose timestamp delta is \<open>10000\<close> ms advances the elapsed days by the same amount
  as a tick whose delta is \<open>100\<close> ms: both are clamped to \<open>100\<close> ms, which adds \<open>100 / 16\<close>.
\<close>

theorem delta_clamp:
  assumes "isPlaying s" and "speed s = Fin 1" and "\<not> isNaN (daysElapsed s)"
    and "previousTimeRef s = Some previous"
    and "js_sub t1 previous = Fin 10000" and "js_sub t2 previous = Fin 100"
  shows "daysElapsed (animate s t1) = daysElapsed (animate s t2)
     \<and> daysElapsed (animate s t2) = js_add (daysElapsed s) (Fin (100 / 16))"
  using assms by (simp add: animate_playing)

theorem delta_clamp_witness:
  "daysElapsed (animate clamp_state (Fin 10500)) = daysElapsed (animate clamp_state (Fin 600))
   \<and> daysElapsed (animate clamp_state (Fin 600)) = Fin (37 / 4)"
  using delta_clamp [of clamp_state "Fin 500" "Fin 10500" "Fin 600"]
  by (simp add: clamp_state_def)

text \<open>
  C10. The \<open>NaN\<close> guard on the accumulator acts only inside a tick taken while playing: a
  tick that turns a \<open>NaN\<close> accumulator into a number is taken while playing (and is not the
  first tick), and such a tick stores exactly \<open>0\<close>, whatever the speed and the delta of that
  frame. A scrub stores \<open>NaN\<close> as it is, the play/pause button and the speed slider leave
  it, and while paused it stays \<open>NaN\<close> through every tick; the first tick after play
  resumes stores \<open>0\<close>.
\<close>

theorem NaN_guard:
  "(isNaN (daysElapsed s) \<and> \<not> isNaN (daysElapsed (animate s t)) \<longrightarrow>
      isPlaying s \<and> previousTimeRef s \<noteq> None)
   \<and> (isPlaying s \<and> previousTimeRef s = Some previous \<and> isNaN (daysElapsed s) \<longrightarrow>
        daysElapsed (animate s t) = Fin 0)
   \<and> daysElapsed (scrub s NaN) = NaN
   \<and> daysElapsed (togglePlaying s) = daysElapsed s
   \<and> daysElapsed (setSpeed s v) = daysElapsed s
   \<and> (\<not> isPlaying s \<longrightarrow> daysElapsed (animate_all (scrub s NaN) ts) = NaN)
   \<and> (\<not> isPlaying s \<and> ts \<noteq> [] \<longrightarrow>
        daysElapsed (animate (togglePlaying (animate_all (scrub s NaN) ts)) t) = Fin 0)"
proof -
  have resume: "daysElapsed (animate (togglePlaying (animate_all (scrub s NaN) ts)) t) = Fin 0"
    if "\<not> isPlaying s" "ts \<noteq> []"
    using that
    by (intro animate_heals [where previous = "last ts"])
      (simp_all add: animate_all_previousTimeRef animate_all_paused)
  have stored: "daysElapsed (scrub s NaN) = NaN"
    by simp
  have kept: "daysElapsed (animate_all (scrub s NaN) ts) = NaN" if "\<not> isPlaying s"
    using that by (simp add: animate_all_paused)
  have controls: "daysElapsed (togglePlaying s) = daysElapsed s"
    "daysElapsed (setSpeed s v) = daysElapsed s"
    by simp_all
  show ?thesis
    using animate_heals_only [of s t] animate_heals [of s previous t] resume stored kept controls
    by blast
qed

theorem NaN_guard_witness:
  "daysElapsed (animate (scrub playing_state NaN) (Fin 10500)) = Fin 0
   \<and> daysElapsed (animate_all (scrub (handleReset playing_state) NaN) [Fin 516, Fin 532]) = NaN
   \<and> daysElapsed (animate (togglePlaying
        (animate_all (scrub (handleReset playing_state) NaN) [Fin 516, Fin 532])) (Fin 548)) = Fin 0"
  using NaN_guard [of "scrub playing_state NaN" "Fin 10500" "Fin 500"]
    NaN_guard [of "handleReset playing_state" "Fin 548" "Fin 500" _ "[Fin 516, Fin 532]"]
  by (simp add: playing_state_def handleReset_def)

end
